theory Spec2Isabelle
  imports Main "HOL-Library.AList" "HOL-Library.Multiset" "HOL-Library.Char_ord" "HOL-Library.List_Lexorder"
begin

section \<open>Regular expressions as the \<^verbatim>\<open>re\<close> module runs them\<close>

text \<open>
  The two patterns of \<^verbatim>\<open>LogParser\<close> are kept as data and run by a backtracking
  matcher. A match state is the input still to be read together with the named groups
  captured so far (newest first). The matcher returns every way a pattern can match at the
  head of the input, in the order in which a backtracking engine tries them: the left
  alternative before the right one, a longer repetition before a shorter one. The first
  entry is the match the engine reports.

  A character of a string is a code point below 256; text with code points beyond that
  range is outside this model.
\<close>

type_synonym groups = "(string \<times> string) list"
type_synonym mstate = "string \<times> groups"

datatype regex =
    Eps
  | Chr char
  | Cls "char \<Rightarrow> bool"
  | Seq regex regex
  | Alt regex regex
  | Star regex
  | Grp string regex

function rmatch :: "regex \<Rightarrow> mstate \<Rightarrow> mstate list" where
  "rmatch Eps st = [st]"
| "rmatch (Chr a) (s, g) = (case s of [] \<Rightarrow> [] | x # xs \<Rightarrow> if x = a then [(xs, g)] else [])"
| "rmatch (Cls p) (s, g) = (case s of [] \<Rightarrow> [] | x # xs \<Rightarrow> if p x then [(xs, g)] else [])"
| "rmatch (Seq r1 r2) st = concat (map (rmatch r2) (rmatch r1 st))"
| "rmatch (Alt r1 r2) st = rmatch r1 st @ rmatch r2 st"
| "rmatch (Star r) (s, g) =
     concat (map (\<lambda>st'. if length (fst st') < length s then rmatch (Star r) st' else [])
                 (rmatch r (s, g)))
     @ [(s, g)]"
| "rmatch (Grp n r) (s, g) =
     map (\<lambda>st'. (fst st', (n, take (length s - length (fst st')) s) # snd st'))
         (rmatch r (s, g))"
  by pat_completeness auto
termination
  by (relation "measures [\<lambda>(r, st). size r, \<lambda>(r, st). length (fst st)]") auto

text \<open>\<^verbatim>\<open>r+\<close> is \<^verbatim>\<open>r r*\<close>, \<^verbatim>\<open>r{n}\<close> is \<^verbatim>\<open>r\<close> written \<^verbatim>\<open>n\<close> times, a literal is its characters.\<close>

definition Plus :: "regex \<Rightarrow> regex" where
  "Plus r = Seq r (Star r)"

fun Rep :: "nat \<Rightarrow> regex \<Rightarrow> regex" where
  "Rep 0 r = Eps"
| "Rep (Suc n) r = Seq r (Rep n r)"

fun Lit :: "string \<Rightarrow> regex" where
  "Lit [] = Eps"
| "Lit (a # as) = Seq (Chr a) (Lit as)"

fun Seqs :: "regex list \<Rightarrow> regex" where
  "Seqs [] = Eps"
| "Seqs (r # rs) = Seq r (Seqs rs)"

text \<open>\<^verbatim>\<open>pattern.match(s)\<close>: the first match at the start of \<^verbatim>\<open>s\<close>, as its groups.\<close>

definition re_match :: "regex \<Rightarrow> string \<Rightarrow> groups option" where
  "re_match r s = (case rmatch r (s, []) of [] \<Rightarrow> None | st # _ \<Rightarrow> Some (snd st))"

text \<open>\<^verbatim>\<open>pattern.search(s)\<close>: the first match at the leftmost position that has one.\<close>

fun re_search :: "regex \<Rightarrow> string \<Rightarrow> groups option" where
  "re_search r [] = re_match r []"
| "re_search r (x # xs) =
     (case re_match r (x # xs) of Some g \<Rightarrow> Some g | None \<Rightarrow> re_search r xs)"

text \<open>\<^verbatim>\<open>m.group(name)\<close>: \<^verbatim>\<open>None\<close> when the group took no part in the match.\<close>

definition group :: "groups \<Rightarrow> string \<Rightarrow> string option" where
  "group g n = map_of g n"

subsection \<open>Character classes\<close>

text \<open>
  A character is a code point below 256. The patterns are \<^verbatim>\<open>str\<close> patterns compiled
  without \<^verbatim>\<open>re.ASCII\<close>, so the classes are the Unicode ones: \<^verbatim>\<open>\d\<close> is a decimal digit
  (below 256 only \<^verbatim>\<open>0\<close> to \<^verbatim>\<open>9\<close>); \<^verbatim>\<open>\s\<close> is a whitespace character (tab to carriage
  return, the separators 0x1C to 0x1F, the space, next line 0x85 and the no-break space
  0xA0); \<^verbatim>\<open>\w\<close> is an alphanumeric character or the underscore (the ASCII digits and
  letters, the ordinal indicators 0xAA and 0xBA, the micro sign 0xB5, the superscripts
  0xB2, 0xB3 and 0xB9, the fractions 0xBC to 0xBE, and the letters 0xC0 to 0xFF without
  the multiplication and division signs 0xD7 and 0xF7).
\<close>

definition code_point :: "char \<Rightarrow> nat" where
  "code_point c = of_char c"

definition is_digit :: "char \<Rightarrow> bool" where
  "is_digit c = (let n = code_point c in 48 \<le> n \<and> n \<le> 57)"

definition is_space :: "char \<Rightarrow> bool" where
  "is_space c = (let n = code_point c in
     (9 \<le> n \<and> n \<le> 13) \<or> (28 \<le> n \<and> n \<le> 32) \<or> n = 133 \<or> n = 160)"

definition is_word :: "char \<Rightarrow> bool" where
  "is_word c = (let n = code_point c in
     (48 \<le> n \<and> n \<le> 57) \<or> (65 \<le> n \<and> n \<le> 90) \<or> n = 95 \<or> (97 \<le> n \<and> n \<le> 122)
     \<or> n = 170 \<or> n = 178 \<or> n = 179 \<or> n = 181 \<or> n = 185 \<or> n = 186
     \<or> n = 188 \<or> n = 189 \<or> n = 190
     \<or> (192 \<le> n \<and> n \<le> 214) \<or> (216 \<le> n \<and> n \<le> 246) \<or> (248 \<le> n \<and> n \<le> 255))"

definition not_newline :: "char \<Rightarrow> bool" where
  "not_newline c = (c \<noteq> CHR 0x0A)"

definition not_space :: "char \<Rightarrow> bool" where
  "not_space c = (\<not> is_space c)"


section \<open>\<^verbatim>\<open>LogParser\<close>\<close>

datatype py_error = TypeError string | AttributeError string

abbreviation digit :: regex where "digit \<equiv> Cls is_digit"
abbreviation space :: regex where "space \<equiv> Cls is_space"
abbreviation word :: regex where "word \<equiv> Cls is_word"

text \<open>\<^verbatim>\<open>DjangoLogComponent.REQUEST.value\<close>\<close>

definition REQUEST :: string where
  "REQUEST = ''django.request''"

text \<open>
  \<^verbatim>\<open>BASE_PATTERN\<close>, compiled with \<^verbatim>\<open>re.VERBOSE\<close> (the layout of the pattern is
  not part of it):
  \<^verbatim>\<open>(?P<timestamp>\d{4}-\d{2}-\d{2}\s+\d{2}:\d{2}:\d{2},\d{3})\s+\<close>
  \<^verbatim>\<open>(?P<level>DEBUG|INFO|WARNING|ERROR|CRITICAL)\s+\<close>
  \<^verbatim>\<open>(?P<component>django\.\w+(?:\.\w+)*):\<close>
  \<^verbatim>\<open>\s+(?P<message>.+)\<close>
\<close>

definition TIMESTAMP :: regex where
  "TIMESTAMP = Seqs [Rep 4 digit, Chr CHR ''-'', Rep 2 digit, Chr CHR ''-'', Rep 2 digit,
                     Plus space,
                     Rep 2 digit, Chr CHR '':'', Rep 2 digit, Chr CHR '':'', Rep 2 digit,
                     Chr CHR '','', Rep 3 digit]"

definition LEVEL :: regex where
  "LEVEL = Alt (Lit ''DEBUG'') (Alt (Lit ''INFO'') (Alt (Lit ''WARNING'')
             (Alt (Lit ''ERROR'') (Lit ''CRITICAL''))))"

definition COMPONENT :: regex where
  "COMPONENT = Seqs [Lit ''django'', Chr CHR ''.'', Plus word,
                     Star (Seq (Chr CHR ''.'') (Plus word))]"

definition MESSAGE :: regex where
  "MESSAGE = Plus (Cls not_newline)"

definition BASE_PATTERN :: regex where
  "BASE_PATTERN = Seqs [Grp ''timestamp'' TIMESTAMP, Plus space,
                        Grp ''level'' LEVEL, Plus space,
                        Grp ''component'' COMPONENT, Chr CHR '':'',
                        Plus space, Grp ''message'' MESSAGE]"

text \<open>
  \<^verbatim>\<open>REQUEST_PATTERN\<close>:
  \<^verbatim>\<open>(?:GET|POST|PUT|DELETE|PATCH)\s+(?P<handler>/[^\s]+)|Error:\s+(?P<error_handler>/[^\s]+)\<close>
\<close>

definition METHOD :: regex where
  "METHOD = Alt (Lit ''GET'') (Alt (Lit ''POST'') (Alt (Lit ''PUT'')
              (Alt (Lit ''DELETE'') (Lit ''PATCH''))))"

definition PATH :: regex where
  "PATH = Seq (Chr CHR ''/'') (Plus (Cls not_space))"

definition REQUEST_PATTERN :: regex where
  "REQUEST_PATTERN =
     Alt (Seqs [METHOD, Plus space, Grp ''handler'' PATH])
         (Seqs [Lit ''Error:'', Plus space, Grp ''error_handler'' PATH])"

text \<open>
  The parsed line is the dictionary \<^verbatim>\<open>data\<close>: the groups of the match, and the key
  \<^verbatim>\<open>handler\<close> when one was found. A group that took no part in a match reads as
  \<^verbatim>\<open>None\<close>; searching \<^verbatim>\<open>None\<close> would raise.
\<close>

type_synonym log_data = "(string \<times> string) list"

text \<open>\<^verbatim>\<open>a or b\<close> on optional strings: \<^verbatim>\<open>a\<close> when it is a non-empty string.\<close>

definition py_or :: "string option \<Rightarrow> string option \<Rightarrow> string option" where
  "py_or a b = (case a of None \<Rightarrow> b | Some x \<Rightarrow> if x = [] then b else Some x)"

definition parse_log_line :: "string \<Rightarrow> py_error + log_data option" where
  "parse_log_line line =
     (case re_match BASE_PATTERN line of
        None \<Rightarrow> Inr None
      | Some data \<Rightarrow>
          if group data ''component'' = Some REQUEST then
            (case group data ''message'' of
               None \<Rightarrow> Inl (TypeError ''expected string or bytes-like object'')
             | Some message \<Rightarrow>
                 (case re_search REQUEST_PATTERN message of
                    None \<Rightarrow> Inr (Some data)
                  | Some request_match \<Rightarrow>
                      (case py_or (group request_match ''handler'')
                                  (group request_match ''error_handler'') of
                         None \<Rightarrow> Inr (Some data)
                       | Some handler \<Rightarrow>
                           if handler \<noteq> [] then Inr (Some (AList.update ''handler'' handler data))
                           else Inr (Some data))))
          else Inr (Some data))"

section \<open>\<^verbatim>\<open>DjangoReportData\<close> and \<^verbatim>\<open>HandlersReport\<close>\<close>

record DjangoReportData =
  handler_name :: string
  debug_count :: int
  info_count :: int
  warning_count :: int
  error_count :: int
  critical_count :: int

text \<open>\<^verbatim>\<open>STAT_FIELDS\<close>; \<^verbatim>\<open>getattr(stat, field)\<close> is the application of the field.\<close>

definition STAT_FIELDS :: "(DjangoReportData \<Rightarrow> int) list" where
  "STAT_FIELDS = [debug_count, info_count, warning_count, error_count, critical_count]"

definition create_totals :: "DjangoReportData list \<Rightarrow> DjangoReportData" where
  "create_totals statistics =
     \<lparr>handler_name = [],
      debug_count = sum_list (map debug_count statistics),
      info_count = sum_list (map info_count statistics),
      warning_count = sum_list (map warning_count statistics),
      error_count = sum_list (map error_count statistics),
      critical_count = sum_list (map critical_count statistics)\<rparr>"

record ColumnReportConfig =
  name :: string
  field :: "DjangoReportData \<Rightarrow> int"
  width :: nat

definition data_column_width :: nat where
  "data_column_width = 7"

definition identifier_column_width :: nat where
  "identifier_column_width = 20"

definition no_data_message :: string where
  "no_data_message = ''No data available for report.''"

definition stat_columns :: "ColumnReportConfig list" where
  "stat_columns =
     [\<lparr>name = ''DEBUG'', field = debug_count, width = data_column_width\<rparr>,
      \<lparr>name = ''INFO'', field = info_count, width = data_column_width\<rparr>,
      \<lparr>name = ''WARNING'', field = warning_count, width = data_column_width\<rparr>,
      \<lparr>name = ''ERROR'', field = error_count, width = data_column_width\<rparr>,
      \<lparr>name = ''CRITICAL'', field = critical_count, width = data_column_width\<rparr>]"

text \<open>\<^verbatim>\<open>str(n)\<close> for an integer, \<^verbatim>\<open>sep.join(xs)\<close>, and the format \<^verbatim>\<open>{s:<w}\<close>, which pads
  on the right and never cuts.\<close>

definition digit_char :: "nat \<Rightarrow> char" where
  "digit_char d = ''0123456789'' ! d"

function str_nat :: "nat \<Rightarrow> string" where
  "str_nat n = (if n < 10 then [digit_char n] else str_nat (n div 10) @ [digit_char (n mod 10)])"
  by pat_completeness auto
termination
  by (relation "measure id") auto

declare str_nat.simps [simp del]

definition str_int :: "int \<Rightarrow> string" where
  "str_int i = (if i < 0 then CHR ''-'' # str_nat (nat (- i)) else str_nat (nat i))"

fun join :: "string \<Rightarrow> string list \<Rightarrow> string" where
  "join sep [] = []"
| "join sep [x] = x"
| "join sep (x # y # ys) = x @ sep @ join sep (y # ys)"

definition ljust :: "nat \<Rightarrow> string \<Rightarrow> string" where
  "ljust w s = s @ replicate (w - length s) CHR '' ''"

definition calculate_total :: "DjangoReportData list \<Rightarrow> int" where
  "calculate_total log_statistics =
     sum_list (map (\<lambda>stat. sum_list (map (\<lambda>field. field stat) STAT_FIELDS)) log_statistics)"

definition get_header :: string where
  "get_header =
     join [CHR 0x09] (ljust identifier_column_width ''HANDLER''
                      # map (\<lambda>col. ljust (width col) (name col)) stat_columns)"

definition format_statistics :: "string \<Rightarrow> DjangoReportData \<Rightarrow> string" where
  "format_statistics title statistics =
     join [CHR 0x09] (ljust identifier_column_width title
                      # map (\<lambda>col. ljust (width col) (str_int (field col statistics))) stat_columns)"

definition format_handler_line :: "DjangoReportData \<Rightarrow> string" where
  "format_handler_line handler = format_statistics (handler_name handler) handler"

definition format_totals_line :: "DjangoReportData \<Rightarrow> string" where
  "format_totals_line totals = format_statistics [] totals"

text \<open>The list \<^verbatim>\<open>report_lines\<close> of \<^verbatim>\<open>generate\<close>, for a non-empty input.\<close>

definition report_lines :: "DjangoReportData list \<Rightarrow> string list" where
  "report_lines log_statistics =
     (let sorted_handlers = sort_key handler_name log_statistics;
          totals = create_totals log_statistics
      in [''Total requests: '' @ str_int (calculate_total log_statistics) @ [CHR 0x0A],
          get_header]
         @ map format_handler_line sorted_handlers
         @ [format_totals_line totals])"

definition generate :: "DjangoReportData list \<Rightarrow> string" where
  "generate log_statistics =
     (if log_statistics = [] then no_data_message
      else join [CHR 0x0A] (report_lines log_statistics))"

section \<open>\<^verbatim>\<open>LogProcessor\<close>\<close>

text \<open>
  A dictionary is the list of its items in insertion order, with distinct keys.
  \<^verbatim>\<open>AList.update\<close> keeps the place of a key that is present and appends a new one, as
  the assignment \<^verbatim>\<open>d[k] = v\<close> does. The per-source result and the merged table are
  both a dictionary from handler to a dictionary from counter name to count.
\<close>

type_synonym levels = "(string \<times> int) list"
type_synonym stats = "(string \<times> levels) list"

text \<open>\<^verbatim>\<open>d.get(k, default)\<close>; also the value that reading \<^verbatim>\<open>d[k]\<close> from a
  \<^verbatim>\<open>defaultdict\<close> gives.\<close>

definition get_default :: "('k \<times> 'v) list \<Rightarrow> 'k \<Rightarrow> 'v \<Rightarrow> 'v" where
  "get_default d k v0 = (case map_of d k of None \<Rightarrow> v0 | Some v \<Rightarrow> v)"

text \<open>\<^verbatim>\<open>d[handler][level] += cnt\<close> on a \<^verbatim>\<open>defaultdict\<close> of
  \<^verbatim>\<open>defaultdict(int)\<close>.\<close>

definition increment :: "stats \<Rightarrow> string \<Rightarrow> string \<Rightarrow> int \<Rightarrow> stats" where
  "increment d handler level cnt =
     (let levels = get_default d handler []
      in AList.update handler (AList.update level (get_default levels level 0 + cnt) levels) d)"

text \<open>\<^verbatim>\<open>str.lower\<close> on ASCII text.\<close>

definition lower_char :: "char \<Rightarrow> char" where
  "lower_char c =
     (case map_of (zip ''ABCDEFGHIJKLMNOPQRSTUVWXYZ'' ''abcdefghijklmnopqrstuvwxyz'') c of
        None \<Rightarrow> c | Some l \<Rightarrow> l)"

definition lower :: "string \<Rightarrow> string" where
  "lower s = map lower_char s"

text \<open>The body of the loop of \<^verbatim>\<open>_process_single_file\<close>, for one line.\<close>

definition process_line :: "stats \<Rightarrow> string \<Rightarrow> py_error + stats" where
  "process_line handlers_data line =
     (case parse_log_line line of
        Inl e \<Rightarrow> Inl e
      | Inr None \<Rightarrow> Inr handlers_data
      | Inr (Some log_data) \<Rightarrow>
          if log_data = [] then Inr handlers_data
          else if group log_data ''component'' = Some REQUEST then
            (case group log_data ''handler'' of
               None \<Rightarrow> Inr handlers_data
             | Some handler \<Rightarrow>
                 (case group log_data ''level'' of
                    None \<Rightarrow> Inl (AttributeError ''NoneType object has no attribute lower'')
                  | Some level \<Rightarrow>
                      Inr (increment handlers_data handler (lower level @ ''_count'') 1)))
          else Inr handlers_data)"

fun process_lines :: "stats \<Rightarrow> string list \<Rightarrow> py_error + stats" where
  "process_lines handlers_data [] = Inr handlers_data"
| "process_lines handlers_data (line # lines) =
     (case process_line handlers_data line of
        Inl e \<Rightarrow> Inl e
      | Inr handlers_data' \<Rightarrow> process_lines handlers_data' lines)"

text \<open>
  The file system: reading a path gives its lines, or fails with an \<^verbatim>\<open>OSError\<close>, or
  fails with another exception (a decoding error). The strings are the messages of the
  exceptions.
\<close>

datatype read_result = Lines "string list" | OSError string | OtherError string

type_synonym file_system = "string \<Rightarrow> read_result"

datatype error =
    LogFileError string string
  | LogProcessingError string
  | MultipleFilesError "(string \<times> string) list"
  | PyError py_error

text \<open>\<^verbatim>\<open>str(e)\<close>\<close>

fun error_str :: "error \<Rightarrow> string" where
  "error_str (LogFileError file_path message) =
     ''Error processing file '' @ file_path @ '': '' @ message"
| "error_str (LogProcessingError message) = message"
| "error_str (MultipleFilesError failed_files) =
     ''Errors in multiple files:'' @ [CHR 0x0A]
     @ join [CHR 0x0A] (map (\<lambda>(path, err). path @ '': '' @ err) failed_files)"
| "error_str (PyError (TypeError message)) = message"
| "error_str (PyError (AttributeError message)) = message"

definition read_logs :: "file_system \<Rightarrow> string \<Rightarrow> error + string list" where
  "read_logs fs file_path =
     (case fs file_path of
        Lines ls \<Rightarrow> Inr ls
      | OSError e \<Rightarrow> Inl (LogFileError file_path e)
      | OtherError e \<Rightarrow>
          Inl (LogProcessingError (''Unexpected error reading file '' @ file_path @ '': '' @ e)))"

definition process_single_file :: "file_system \<Rightarrow> string \<Rightarrow> error + stats" where
  "process_single_file fs file_path =
     (case read_logs fs file_path of
        Inl e \<Rightarrow> Inl e
      | Inr lines \<Rightarrow>
          (case process_lines [] lines of
             Inl e \<Rightarrow> Inl (PyError e)
           | Inr handlers_data \<Rightarrow> Inr handlers_data))"

text \<open>The three nested loops of \<^verbatim>\<open>_merge_results\<close>, and the table they fill.\<close>

definition merge_levels :: "string \<Rightarrow> levels \<Rightarrow> stats \<Rightarrow> stats" where
  "merge_levels handler levels merged =
     fold (\<lambda>(level, cnt) m. increment m handler level cnt) levels merged"

definition merge_result :: "stats \<Rightarrow> stats \<Rightarrow> stats" where
  "merge_result result merged =
     fold (\<lambda>(handler, levels) m. merge_levels handler levels m) result merged"

definition merged_data :: "stats list \<Rightarrow> stats" where
  "merged_data partial_results = fold merge_result partial_results []"

text \<open>
  The rows are built from \<^verbatim>\<open>sorted(merged_data.items())\<close>. The items are pairs with
  distinct first components, so the order of the pairs is the order of the handlers.
\<close>

definition to_report_data :: "string \<times> levels \<Rightarrow> DjangoReportData" where
  "to_report_data item =
     (case item of (handler, levels) \<Rightarrow>
        \<lparr>handler_name = handler,
         debug_count = get_default levels ''debug_count'' 0,
         info_count = get_default levels ''info_count'' 0,
         warning_count = get_default levels ''warning_count'' 0,
         error_count = get_default levels ''error_count'' 0,
         critical_count = get_default levels ''critical_count'' 0\<rparr>)"

definition merge_results :: "stats list \<Rightarrow> DjangoReportData list" where
  "merge_results partial_results =
     map to_report_data (sort_key fst (merged_data partial_results))"

text \<open>The list comprehension \<^verbatim>\<open>[f(x) for x in xs]\<close>: the first exception ends it.\<close>

fun collect :: "('a \<Rightarrow> error + 'b) \<Rightarrow> 'a list \<Rightarrow> error + 'b list" where
  "collect f [] = Inr []"
| "collect f (x # xs) =
     (case f x of
        Inl e \<Rightarrow> Inl e
      | Inr y \<Rightarrow> (case collect f xs of Inl e \<Rightarrow> Inl e | Inr ys \<Rightarrow> Inr (y # ys)))"

text \<open>
  \<^verbatim>\<open>process_files\<close>. The worker pool is not code of this program: \<^verbatim>\<open>pool_map n f xs\<close>
  stands for \<^verbatim>\<open>mp.Pool(n).map(f, xs)\<close> and is a parameter. A \<^verbatim>\<open>LogFileError\<close>
  passes through; every other exception is wrapped in a \<^verbatim>\<open>LogProcessingError\<close>.
\<close>

type_synonym pool =
  "nat \<Rightarrow> (string \<Rightarrow> error + stats) \<Rightarrow> string list \<Rightarrow> error + stats list"

definition process_files ::
  "pool \<Rightarrow> nat \<Rightarrow> bool \<Rightarrow> file_system \<Rightarrow> string list \<Rightarrow> error + DjangoReportData list" where
  "process_files pool_map num_workers use_multiprocessing fs file_paths =
     (case (if use_multiprocessing
            then pool_map num_workers (process_single_file fs) file_paths
            else collect (process_single_file fs) file_paths) of
        Inr results \<Rightarrow> Inr (merge_results results)
      | Inl (LogFileError file_path message) \<Rightarrow> Inl (LogFileError file_path message)
      | Inl e \<Rightarrow> Inl (LogProcessingError (''Error processing log files: '' @ error_str e)))"


section \<open>Notions used to state the properties\<close>

subsection \<open>The words a pattern matches\<close>

inductive_set star :: "string set \<Rightarrow> string set" for A :: "string set" where
  star_Nil: "[] \<in> star A"
| star_App: "u \<in> A \<Longrightarrow> v \<in> star A \<Longrightarrow> u @ v \<in> star A"

fun lang :: "regex \<Rightarrow> string set" where
  "lang Eps = {[]}"
| "lang (Chr a) = {[a]}"
| "lang (Cls p) = {[x] | x. p x}"
| "lang (Seq r1 r2) = {u @ v | u v. u \<in> lang r1 \<and> v \<in> lang r2}"
| "lang (Alt r1 r2) = lang r1 \<union> lang r2"
| "lang (Star r) = star (lang r)"
| "lang (Grp n r) = lang r"

fun no_groups :: "regex \<Rightarrow> bool" where
  "no_groups Eps = True"
| "no_groups (Chr a) = True"
| "no_groups (Cls p) = True"
| "no_groups (Seq r1 r2) = (no_groups r1 \<and> no_groups r2)"
| "no_groups (Alt r1 r2) = (no_groups r1 \<and> no_groups r2)"
| "no_groups (Star r) = no_groups r"
| "no_groups (Grp n r) = False"

subsection \<open>The cells of a table\<close>

text \<open>
  \<open>cell\<close> reads a table as Python reads a dictionary, an absent key counting as zero.
  \<open>contribution\<close> is what the loops of \<^verbatim>\<open>_merge_results\<close> add for one cell when they
  run over the items of a partial result, and \<open>contributors\<close> are the handlers for which
  they run at least once. On a dictionary the two readings agree.
\<close>

definition cell :: "stats \<Rightarrow> string \<Rightarrow> string \<Rightarrow> int" where
  "cell d handler level = get_default (get_default d handler []) level 0"

definition handlers :: "stats \<Rightarrow> string set" where
  "handlers d = fst ` set d"

definition level_sum :: "levels \<Rightarrow> string \<Rightarrow> int" where
  "level_sum levels level = sum_list (map snd (filter (\<lambda>item. fst item = level) levels))"

definition contribution :: "stats \<Rightarrow> string \<Rightarrow> string \<Rightarrow> int" where
  "contribution result handler level =
     sum_list (map (\<lambda>item. level_sum (snd item) level) (filter (\<lambda>item. fst item = handler) result))"

definition contributors :: "stats \<Rightarrow> string set" where
  "contributors result = {handler. \<exists>levels. (handler, levels) \<in> set result \<and> levels \<noteq> []}"

definition well_formed :: "stats \<Rightarrow> bool" where
  "well_formed d \<longleftrightarrow>
     distinct (map fst d) \<and> (\<forall>item \<in> set d. snd item \<noteq> [] \<and> distinct (map fst (snd item)))"

definition row :: "stats \<Rightarrow> string \<Rightarrow> DjangoReportData" where
  "row d handler =
     \<lparr>handler_name = handler,
      debug_count = cell d handler ''debug_count'',
      info_count = cell d handler ''info_count'',
      warning_count = cell d handler ''warning_count'',
      error_count = cell d handler ''error_count'',
      critical_count = cell d handler ''critical_count''\<rparr>"

definition dict_of_dicts :: "stats \<Rightarrow> bool" where
  "dict_of_dicts d \<longleftrightarrow>
     distinct (map fst d) \<and> (\<forall>item \<in> set d. distinct (map fst (snd item)))"

definition total_row :: "stats list \<Rightarrow> string \<Rightarrow> DjangoReportData" where
  "total_row ps handler =
     \<lparr>handler_name = handler,
      debug_count = sum_list (map (\<lambda>p. cell p handler ''debug_count'') ps),
      info_count = sum_list (map (\<lambda>p. cell p handler ''info_count'') ps),
      warning_count = sum_list (map (\<lambda>p. cell p handler ''warning_count'') ps),
      error_count = sum_list (map (\<lambda>p. cell p handler ''error_count'') ps),
      critical_count = sum_list (map (\<lambda>p. cell p handler ''critical_count'') ps)\<rparr>"

subsection \<open>A row of the report as text\<close>

text \<open>A title and its counters, each padded to its column and joined by tabs.\<close>

definition text_row :: "string \<Rightarrow> int list \<Rightarrow> string" where
  "text_row title counts =
     join [CHR 0x09] (ljust 20 title # map (\<lambda>n. ljust 7 (str_int n)) counts)"

subsection \<open>The shape of a line\<close>

text \<open>
  The parts of a line that \<^verbatim>\<open>BASE_PATTERN\<close> accepts, said without the pattern. A
  template such as \<^verbatim>\<open>YYYY-MM-DD\<close> stands for the strings of its length with a decimal
  digit at each letter and its own character elsewhere.
\<close>

definition conc :: "string set \<Rightarrow> string set \<Rightarrow> string set" where
  "conc A B = {u @ v | u v. u \<in> A \<and> v \<in> B}"

definition has_shape :: "string \<Rightarrow> string \<Rightarrow> bool" where
  "has_shape template s =
     list_all2 (\<lambda>t c. if t \<in> set ''YMDHSm'' then is_digit c else c = t) template s"

definition whitespace :: "string \<Rightarrow> bool" where
  "whitespace w \<longleftrightarrow> w \<noteq> [] \<and> list_all is_space w"

definition timestamp_text :: "string \<Rightarrow> bool" where
  "timestamp_text ts \<longleftrightarrow>
     (\<exists>d sep t. ts = d @ sep @ t \<and> has_shape ''YYYY-MM-DD'' d \<and> whitespace sep
        \<and> has_shape ''HH:MM:SS,mmm'' t)"

definition LEVELS :: "string list" where
  "LEVELS = [''DEBUG'', ''INFO'', ''WARNING'', ''ERROR'', ''CRITICAL'']"

definition component_text :: "string \<Rightarrow> bool" where
  "component_text cp \<longleftrightarrow>
     (\<exists>segs. segs \<noteq> [] \<and> (\<forall>seg \<in> set segs. seg \<noteq> [] \<and> list_all is_word seg)
        \<and> cp = ''django'' @ concat (map ((#) CHR ''.'') segs))"

definition message_text :: "string \<Rightarrow> bool" where
  "message_text msg \<longleftrightarrow> msg \<noteq> [] \<and> list_all not_newline msg"

definition log_line_parts :: "string \<Rightarrow> string \<Rightarrow> string \<Rightarrow> string \<Rightarrow> string \<Rightarrow> bool" where
  "log_line_parts line ts lv cp msg \<longleftrightarrow>
     (\<exists>ws1 ws2 ws3 rest.
        line = ts @ ws1 @ lv @ ws2 @ cp @ '':'' @ ws3 @ msg @ rest
        \<and> timestamp_text ts \<and> whitespace ws1 \<and> lv \<in> set LEVELS \<and> whitespace ws2
        \<and> component_text cp \<and> whitespace ws3 \<and> message_text msg)"

definition template_char :: "char \<Rightarrow> regex" where
  "template_char t = (if t \<in> set ''YMDHSm'' then digit else Chr t)"

definition path_text :: "string \<Rightarrow> bool" where
  "path_text p \<longleftrightarrow> (\<exists>q. p = CHR ''/'' # q \<and> q \<noteq> [] \<and> list_all not_space q)"

subsection \<open>The line format as the specification words it\<close>




subsection \<open>Handler keys and the contribution of a line\<close>

text \<open>
  \<open>handler_key_ok\<close>: the key begins with a slash and has no whitespace character.
  \<open>attribution\<close> is the cell that a line increments in \<^verbatim>\<open>_process_single_file\<close>, if
  any, and \<open>count_line\<close> is the effect of the line on the table.
\<close>

definition handler_key_ok :: "string \<Rightarrow> bool" where
  "handler_key_ok h = (case h of [] \<Rightarrow> False | c # cs \<Rightarrow> c = CHR ''/'' \<and> list_all not_space h)"

definition attribution :: "string \<Rightarrow> (string \<times> string) option" where
  "attribution line =
     (case parse_log_line line of
        Inr (Some data) \<Rightarrow>
          (if group data ''component'' = Some REQUEST then
             (case group data ''handler'' of
                None \<Rightarrow> None
              | Some handler \<Rightarrow>
                  (case group data ''level'' of
                     None \<Rightarrow> None
                   | Some level \<Rightarrow> Some (handler, lower level @ ''_count'')))
           else None)
      | _ \<Rightarrow> None)"

definition count_line :: "string \<Rightarrow> stats \<Rightarrow> stats" where
  "count_line line d =
     (case attribution line of None \<Rightarrow> d | Some (handler, level) \<Rightarrow> increment d handler level 1)"

section \<open>The matcher and the words of a pattern\<close>

declare rmatch.simps(6) [simp del]

lemma rmatch_Star_mem:
  "x \<in> set (rmatch (Star r) (s, g)) \<longleftrightarrow>
     x = (s, g) \<or> (\<exists>m \<in> set (rmatch r (s, g)). length (fst m) < length s \<and> x \<in> set (rmatch (Star r) m))"
  by (subst rmatch.simps(6)) auto

lemma rmatch_sound:
  "(s', g') \<in> set (rmatch r st) \<Longrightarrow> \<exists>w \<in> lang r. fst st = w @ s'"
proof (induction r st arbitrary: s' g' rule: rmatch.induct)
  case (1 st)
  then show ?case by auto
next
  case (2 a s g)
  then show ?case by (cases s) (simp_all split: if_splits)
next
  case (3 p s g)
  then show ?case by (cases s) (simp_all split: if_splits)
next
  case (4 r1 r2 st)
  from "4.prems" obtain s1 g1 where m: "(s1, g1) \<in> set (rmatch r1 st)"
    and x: "(s', g') \<in> set (rmatch r2 (s1, g1))"
    by auto
  from "4.IH"(1)[OF m] obtain u where u: "u \<in> lang r1" "fst st = u @ s1" by blast
  from "4.IH"(2)[OF m x] obtain v where v: "v \<in> lang r2" "s1 = v @ s'" by auto
  have "u @ v \<in> lang (Seq r1 r2)" using u(1) v(1) by auto
  moreover have "fst st = (u @ v) @ s'" using u(2) v(2) by simp
  ultimately show ?case by blast
next
  case (5 r1 r2 st)
  from "5.prems" have "(s', g') \<in> set (rmatch r1 st) \<or> (s', g') \<in> set (rmatch r2 st)" by simp
  then show ?case
  proof
    assume "(s', g') \<in> set (rmatch r1 st)"
    from "5.IH"(1)[OF this] show ?thesis by auto
  next
    assume "(s', g') \<in> set (rmatch r2 st)"
    from "5.IH"(2)[OF this] show ?thesis by auto
  qed
next
  case (6 r s g)
  from "6.prems" consider "(s', g') = (s, g)"
    | s1 g1 where "(s1, g1) \<in> set (rmatch r (s, g))" "length s1 < length s"
        "(s', g') \<in> set (rmatch (Star r) (s1, g1))"
    by (subst (asm) rmatch_Star_mem) auto
  then show ?case
  proof cases
    case 1
    then show ?thesis by (auto intro: star_Nil)
  next
    case 2
    from "6.IH"(1)[OF 2(1)] obtain u where u: "u \<in> lang r" "s = u @ s1" by auto
    from "6.IH"(2)[OF 2(1) _ 2(3)] 2(2) obtain v where v: "v \<in> star (lang r)" "s1 = v @ s'"
      by auto
    from u v have "u @ v \<in> star (lang r)" by (auto intro: star_App)
    moreover have "s = (u @ v) @ s'" using u v by simp
    ultimately show ?thesis by auto
  qed
next
  case (7 n r s g)
  from "7.prems" obtain g0 where "(s', g0) \<in> set (rmatch r (s, g))" by auto
  from "7.IH"[OF this] show ?case by simp
qed

lemma rmatch_groups_same:
  "no_groups r \<Longrightarrow> (s', g') \<in> set (rmatch r st) \<Longrightarrow> g' = snd st"
proof (induction r st arbitrary: s' g' rule: rmatch.induct)
  case (1 st)
  then show ?case by auto
next
  case (2 a s g)
  then show ?case by (cases s) (simp_all split: if_splits)
next
  case (3 p s g)
  then show ?case by (cases s) (simp_all split: if_splits)
next
  case (4 r1 r2 st)
  from "4.prems" obtain s1 g1 where m: "(s1, g1) \<in> set (rmatch r1 st)"
    and x: "(s', g') \<in> set (rmatch r2 (s1, g1))"
    by auto
  from "4.IH"(1)[OF _ m] "4.prems"(1) have "g1 = snd st" by simp
  moreover from "4.IH"(2)[OF m _ x] "4.prems"(1) have "g' = g1" by simp
  ultimately show ?case by simp
next
  case (5 r1 r2 st)
  from "5.prems" have "(s', g') \<in> set (rmatch r1 st) \<or> (s', g') \<in> set (rmatch r2 st)" by simp
  then show ?case
  proof
    assume "(s', g') \<in> set (rmatch r1 st)"
    from "5.IH"(1)[OF _ this] "5.prems"(1) show ?thesis by simp
  next
    assume "(s', g') \<in> set (rmatch r2 st)"
    from "5.IH"(2)[OF _ this] "5.prems"(1) show ?thesis by simp
  qed
next
  case (6 r s g)
  from "6.prems"(2) consider "(s', g') = (s, g)"
    | s1 g1 where "(s1, g1) \<in> set (rmatch r (s, g))" "length s1 < length s"
        "(s', g') \<in> set (rmatch (Star r) (s1, g1))"
    by (subst (asm) rmatch_Star_mem) auto
  then show ?case
  proof cases
    case 1
    then show ?thesis by simp
  next
    case 2
    from "6.IH"(1)[OF _ 2(1)] "6.prems"(1) have "g1 = g" by simp
    moreover from "6.IH"(2)[OF 2(1) _ "6.prems"(1) 2(3)] 2(2) have "g' = g1" by simp
    ultimately show ?thesis by simp
  qed
next
  case (7 n r s g)
  then show ?case by simp
qed

lemma star_complete:
  assumes w: "w \<in> star (lang r)"
    and r: "\<And>u s g. u \<in> lang r \<Longrightarrow> \<exists>g'. (s, g') \<in> set (rmatch r (u @ s, g))"
  shows "\<exists>g'. (s, g') \<in> set (rmatch (Star r) (w @ s, g))"
  using w
proof (induction arbitrary: g rule: star.induct)
  case star_Nil
  show ?case by (subst rmatch_Star_mem) auto
next
  case (star_App u v)
  show ?case
  proof (cases "u = []")
    case True
    with star_App.IH show ?thesis by simp
  next
    case False
    from r[OF star_App.hyps(1), of "v @ s" g] obtain g1
      where g1: "(v @ s, g1) \<in> set (rmatch r (u @ v @ s, g))" by blast
    from star_App.IH[of g1] obtain g2
      where g2: "(s, g2) \<in> set (rmatch (Star r) (v @ s, g1))" by blast
    from False have len: "length (v @ s) < length (u @ v @ s)" by simp
    have "(s, g2) \<in> set (rmatch (Star r) (u @ v @ s, g))"
      apply (subst rmatch_Star_mem)
      apply (rule disjI2)
      apply (rule bexI[OF _ g1])
      using len g2 apply simp
      done
    then show ?thesis by auto
  qed
qed

lemma rmatch_complete:
  "w \<in> lang r \<Longrightarrow> \<exists>g'. (s, g') \<in> set (rmatch r (w @ s, g))"
proof (induction r arbitrary: w s g)
  case Eps
  then show ?case by simp
next
  case (Chr a)
  then show ?case by simp
next
  case (Cls p)
  then show ?case by auto
next
  case (Seq r1 r2)
  from Seq.prems obtain u v where uv: "w = u @ v" "u \<in> lang r1" "v \<in> lang r2" by auto
  from Seq.IH(1)[OF uv(2), of "v @ s" g] obtain g1
    where g1: "(v @ s, g1) \<in> set (rmatch r1 (u @ v @ s, g))" by blast
  from Seq.IH(2)[OF uv(3), of s g1] obtain g2
    where g2: "(s, g2) \<in> set (rmatch r2 (v @ s, g1))" by blast
  have "(s, g2) \<in> set (rmatch (Seq r1 r2) (w @ s, g))"
    using g1 g2 uv(1) by (simp, blast)
  then show ?case by blast
next
  case (Alt r1 r2)
  from Alt.prems have "w \<in> lang r1 \<or> w \<in> lang r2" by simp
  then show ?case
  proof
    assume "w \<in> lang r1"
    from Alt.IH(1)[OF this, of s g] show ?thesis by auto
  next
    assume "w \<in> lang r2"
    from Alt.IH(2)[OF this, of s g] show ?thesis by auto
  qed
next
  case (Star r)
  from Star.prems have "w \<in> star (lang r)" by simp
  from star_complete[OF this, of s g] Star.IH show ?case by blast
next
  case (Grp n r)
  from Grp.prems have "w \<in> lang r" by simp
  from Grp.IH[OF this, of s g] obtain g0 where "(s, g0) \<in> set (rmatch r (w @ s, g))" by blast
  then have "(s, (n, take (length (w @ s) - length s) (w @ s)) # g0) \<in> set (rmatch (Grp n r) (w @ s, g))"
    by force
  then show ?case by blast
qed

section \<open>The merge loops, cell by cell\<close>

lemma cell_increment:
  "cell (increment d h l n) h' l' = cell d h' l' + (if h = h' \<and> l = l' then n else 0)"
  by (simp add: cell_def increment_def get_default_def update_conv' Let_def)

lemma handlers_increment: "handlers (increment d h l n) = insert h (handlers d)"
  by (simp add: handlers_def increment_def dom_update Let_def)

lemma set_update_subset: "set (AList.update k v al) \<subseteq> insert (k, v) (set al)"
  by (induction al) auto

lemma map_of_distinct_mem: "distinct (map fst d) \<Longrightarrow> (k, v) \<in> set d \<Longrightarrow> map_of d k = Some v"
  by simp

lemma well_formed_increment:
  assumes "well_formed d"
  shows "well_formed (increment d h l n)"
proof -
  let ?lv = "get_default d h []"
  let ?lv' = "AList.update l (get_default ?lv l 0 + n) ?lv"
  have lv: "distinct (map fst ?lv)"
  proof (cases "map_of d h")
    case None
    then show ?thesis by (simp add: get_default_def)
  next
    case (Some a)
    then have "(h, a) \<in> set d" by (rule map_of_SomeD)
    with assms show ?thesis using Some by (auto simp: get_default_def well_formed_def)
  qed
  have 1: "distinct (map fst (AList.update h ?lv' d))"
    using assms by (simp add: well_formed_def distinct_update)
  have 2: "\<forall>item \<in> set (AList.update h ?lv' d). snd item \<noteq> [] \<and> distinct (map fst (snd item))"
  proof
    fix item assume "item \<in> set (AList.update h ?lv' d)"
    then have "item = (h, ?lv') \<or> item \<in> set d" using set_update_subset by fastforce
    then show "snd item \<noteq> [] \<and> distinct (map fst (snd item))"
    proof
      assume "item = (h, ?lv')"
      then show ?thesis using lv by (simp add: distinct_update)
    next
      assume "item \<in> set d"
      with assms show ?thesis by (simp add: well_formed_def)
    qed
  qed
  from 1 2 show ?thesis by (simp add: well_formed_def increment_def Let_def)
qed

lemma cell_merge_levels:
  "cell (merge_levels h lv m) h' l' = cell m h' l' + (if h = h' then level_sum lv l' else 0)"
  unfolding merge_levels_def
proof (induction lv arbitrary: m)
  case Nil
  then show ?case by (simp add: level_sum_def)
next
  case (Cons a lv)
  obtain l n where a: "a = (l, n)" by (cases a)
  show ?case by (simp add: a Cons.IH cell_increment level_sum_def)
qed

lemma handlers_merge_levels:
  "handlers (merge_levels h lv m) = (if lv = [] then handlers m else insert h (handlers m))"
  unfolding merge_levels_def
proof (induction lv arbitrary: m)
  case Nil
  then show ?case by simp
next
  case (Cons a lv)
  obtain l n where a: "a = (l, n)" by (cases a)
  show ?case by (simp add: a Cons.IH handlers_increment)
qed

lemma well_formed_merge_levels: "well_formed m \<Longrightarrow> well_formed (merge_levels h lv m)"
  unfolding merge_levels_def
proof (induction lv arbitrary: m)
  case Nil
  then show ?case by simp
next
  case (Cons a lv)
  obtain l n where a: "a = (l, n)" by (cases a)
  show ?case using Cons.prems by (simp add: a Cons.IH well_formed_increment)
qed

lemma cell_merge_result:
  "cell (merge_result res m) h l = cell m h l + contribution res h l"
  unfolding merge_result_def
proof (induction res arbitrary: m)
  case Nil
  then show ?case by (simp add: contribution_def)
next
  case (Cons a res)
  obtain k lv where a: "a = (k, lv)" by (cases a)
  show ?case by (simp add: a Cons.IH cell_merge_levels contribution_def)
qed

lemma handlers_merge_result:
  "handlers (merge_result res m) = handlers m \<union> contributors res"
  unfolding merge_result_def
proof (induction res arbitrary: m)
  case Nil
  then show ?case by (simp add: contributors_def)
next
  case (Cons a res)
  obtain k lv where a: "a = (k, lv)" by (cases a)
  show ?case by (auto simp add: a Cons.IH handlers_merge_levels contributors_def)
qed

lemma well_formed_merge_result: "well_formed m \<Longrightarrow> well_formed (merge_result res m)"
  unfolding merge_result_def
proof (induction res arbitrary: m)
  case Nil
  then show ?case by simp
next
  case (Cons a res)
  obtain k lv where a: "a = (k, lv)" by (cases a)
  show ?case using Cons.prems by (simp add: a Cons.IH well_formed_merge_levels)
qed

lemma cell_fold_merge:
  "cell (fold merge_result ps m) h l = cell m h l + sum_list (map (\<lambda>p. contribution p h l) ps)"
  by (induction ps arbitrary: m) (simp_all add: cell_merge_result)

lemma handlers_fold_merge:
  "handlers (fold merge_result ps m) = handlers m \<union> (\<Union>p \<in> set ps. contributors p)"
  by (induction ps arbitrary: m) (auto simp add: handlers_merge_result)

lemma well_formed_fold_merge: "well_formed m \<Longrightarrow> well_formed (fold merge_result ps m)"
  by (induction ps arbitrary: m) (simp_all add: well_formed_merge_result)

lemma well_formed_Nil: "well_formed []"
  by (simp add: well_formed_def)

lemma cell_Nil: "cell [] h l = 0"
  by (simp add: cell_def get_default_def)

lemma cell_merged_data:
  "cell (merged_data ps) h l = sum_list (map (\<lambda>p. contribution p h l) ps)"
  by (simp add: merged_data_def cell_fold_merge cell_Nil)

lemma handlers_merged_data: "handlers (merged_data ps) = (\<Union>p \<in> set ps. contributors p)"
  by (simp add: merged_data_def handlers_fold_merge) (simp add: handlers_def)

lemma well_formed_merged_data: "well_formed (merged_data ps)"
  by (simp add: merged_data_def well_formed_fold_merge well_formed_Nil)

lemma to_report_data_row:
  assumes "distinct (map fst d)" and "item \<in> set d"
  shows "to_report_data item = row d (fst item)"
proof -
  obtain h lv where item: "item = (h, lv)" by (cases item)
  with assms have "map_of d h = Some lv" by simp
  then show ?thesis by (simp add: item to_report_data_def row_def cell_def get_default_def)
qed

lemma rows_normal_form:
  assumes "distinct (map fst d)"
  shows "map to_report_data (sort_key fst d) = map (row d) (sorted_list_of_set (handlers d))"
proof -
  have "map to_report_data (sort_key fst d) = map (\<lambda>item. row d (fst item)) (sort_key fst d)"
    by (rule map_cong) (simp_all add: to_report_data_row[OF assms])
  also have "\<dots> = map (row d) (map fst (sort_key fst d))" by simp
  also have "map fst (sort_key fst d) = sorted_list_of_set (handlers d)"
  proof (rule sorted_distinct_set_unique)
    show "sorted (map fst (sort_key fst d))" by (rule sorted_sort_key)
    show "distinct (map fst (sort_key fst d))"
      using assms by (metis distinct_map distinct_sort set_sort)
    show "sorted (sorted_list_of_set (handlers d))" by simp
    show "distinct (sorted_list_of_set (handlers d))" by simp
    show "set (map fst (sort_key fst d)) = set (sorted_list_of_set (handlers d))"
      by (simp add: handlers_def)
  qed
  finally show ?thesis .
qed

lemma merge_results_normal_form:
  "merge_results ps = map (row (merged_data ps)) (sorted_list_of_set (handlers (merged_data ps)))"
  unfolding merge_results_def
  using well_formed_merged_data[of ps] by (intro rows_normal_form) (simp add: well_formed_def)

lemma merge_results_cong:
  assumes "(\<Union>p \<in> set ps. contributors p) = (\<Union>p \<in> set qs. contributors p)"
    and "\<And>h l. sum_list (map (\<lambda>p. contribution p h l) ps) = sum_list (map (\<lambda>p. contribution p h l) qs)"
  shows "merge_results ps = merge_results qs"
proof -
  have "row (merged_data ps) = row (merged_data qs)"
    by (rule ext) (simp add: row_def cell_merged_data assms(2))
  moreover have "handlers (merged_data ps) = handlers (merged_data qs)"
    by (simp add: handlers_merged_data assms(1))
  ultimately show ?thesis by (simp add: merge_results_normal_form)
qed

lemma level_sum_distinct:
  "distinct (map fst lv) \<Longrightarrow> level_sum lv l = get_default lv l 0"
proof (induction lv)
  case Nil
  then show ?case by (simp add: level_sum_def get_default_def)
next
  case (Cons a lv)
  obtain k n where a: "a = (k, n)" by (cases a)
  from Cons.prems have k: "k \<notin> fst ` set lv" and d: "distinct (map fst lv)" by (simp_all add: a)
  show ?case
  proof (cases "k = l")
    case True
    with k have "filter (\<lambda>item. fst item = l) lv = []" by (auto simp: filter_empty_conv)
    with True show ?thesis by (simp add: a level_sum_def get_default_def)
  next
    case False
    with Cons.IH[OF d] show ?thesis by (simp add: a level_sum_def get_default_def)
  qed
qed

lemma contribution_well_formed:
  "well_formed d \<Longrightarrow> contribution d h l = cell d h l"
proof (induction d)
  case Nil
  then show ?case by (simp add: contribution_def cell_def get_default_def)
next
  case (Cons a d)
  obtain k lv where a: "a = (k, lv)" by (cases a)
  from Cons.prems have k: "k \<notin> fst ` set d" and wf: "well_formed d"
    and lv: "distinct (map fst lv)"
    by (auto simp add: a well_formed_def)
  show ?case
  proof (cases "k = h")
    case True
    with k have "filter (\<lambda>item. fst item = h) d = []" by (auto simp: filter_empty_conv)
    with True show ?thesis
      by (simp add: a contribution_def cell_def level_sum_distinct[OF lv]) (simp add: get_default_def)
  next
    case False
    with Cons.IH[OF wf] show ?thesis by (simp add: a contribution_def cell_def get_default_def)
  qed
qed

lemma contributors_well_formed: "well_formed d \<Longrightarrow> contributors d = handlers d"
  by (force simp add: contributors_def handlers_def well_formed_def)

lemma merge_results_merged_first:
  "merge_results (merged_data xs # ys) = merge_results (xs @ ys)"
proof (rule merge_results_cong)
  show "(\<Union>p \<in> set (merged_data xs # ys). contributors p) = (\<Union>p \<in> set (xs @ ys). contributors p)"
    by (simp add: contributors_well_formed[OF well_formed_merged_data] handlers_merged_data Un_commute UN_Un)
next
  fix h l
  show "sum_list (map (\<lambda>p. contribution p h l) (merged_data xs # ys)) =
        sum_list (map (\<lambda>p. contribution p h l) (xs @ ys))"
    by (simp add: contribution_well_formed[OF well_formed_merged_data] cell_merged_data)
qed

lemma merge_results_merged_last:
  "merge_results (xs @ [merged_data ys]) = merge_results (xs @ ys)"
proof (rule merge_results_cong)
  show "(\<Union>p \<in> set (xs @ [merged_data ys]). contributors p) = (\<Union>p \<in> set (xs @ ys). contributors p)"
    by (simp add: contributors_well_formed[OF well_formed_merged_data] handlers_merged_data Un_commute UN_Un)
next
  fix h l
  show "sum_list (map (\<lambda>p. contribution p h l) (xs @ [merged_data ys])) =
        sum_list (map (\<lambda>p. contribution p h l) (xs @ ys))"
    by (simp add: contribution_well_formed[OF well_formed_merged_data] cell_merged_data)
qed

lemma merge_results_permutation:
  assumes "mset ps = mset qs"
  shows "merge_results ps = merge_results qs"
proof (rule merge_results_cong)
  from assms have "set ps = set qs" by (rule mset_eq_setD)
  then show "(\<Union>p \<in> set ps. contributors p) = (\<Union>p \<in> set qs. contributors p)" by simp
next
  fix h l
  have "mset (map (\<lambda>p. contribution p h l) ps) = mset (map (\<lambda>p. contribution p h l) qs)"
    using assms by (metis mset_map)
  then show "sum_list (map (\<lambda>p. contribution p h l) ps) = sum_list (map (\<lambda>p. contribution p h l) qs)"
    by (metis sum_mset_sum_list)
qed

lemma merge_results_sorted: "sorted (map handler_name (merge_results ps))"
proof -
  have "map handler_name (merge_results ps) = map fst (sort_key fst (merged_data ps))"
    by (simp add: merge_results_def to_report_data_def case_prod_beta comp_def)
  then show ?thesis by (simp add: sorted_sort_key)
qed

lemma merge_results_distinct: "distinct (map handler_name (merge_results ps))"
proof -
  have "map handler_name (merge_results ps) = map fst (sort_key fst (merged_data ps))"
    by (simp add: merge_results_def to_report_data_def case_prod_beta comp_def)
  moreover have "distinct (map fst (sort_key fst (merged_data ps)))"
    using well_formed_merged_data[of ps] by (metis distinct_map distinct_sort set_sort well_formed_def)
  ultimately show ?thesis by simp
qed

lemma contribution_dict:
  "dict_of_dicts d \<Longrightarrow> contribution d h l = cell d h l"
proof (induction d)
  case Nil
  then show ?case by (simp add: contribution_def cell_def get_default_def)
next
  case (Cons a d)
  obtain k lv where a: "a = (k, lv)" by (cases a)
  from Cons.prems have k: "k \<notin> fst ` set d" and wf: "dict_of_dicts d"
    and lv: "distinct (map fst lv)"
    by (auto simp add: a dict_of_dicts_def)
  show ?case
  proof (cases "k = h")
    case True
    with k have "filter (\<lambda>item. fst item = h) d = []" by (auto simp: filter_empty_conv)
    with True show ?thesis
      by (simp add: a contribution_def cell_def level_sum_distinct[OF lv]) (simp add: get_default_def)
  next
    case False
    with Cons.IH[OF wf] show ?thesis by (simp add: a contribution_def cell_def get_default_def)
  qed
qed

lemma merge_results_closed_form:
  assumes "\<forall>p \<in> set ps. dict_of_dicts p"
  shows "merge_results ps = map (total_row ps) (sorted_list_of_set (\<Union>p \<in> set ps. contributors p))"
proof -
  have "sum_list (map (\<lambda>p. contribution p h l) ps) = sum_list (map (\<lambda>p. cell p h l) ps)" for h l
    using assms by (intro arg_cong[where f=sum_list] map_cong) (simp_all add: contribution_dict)
  then have "row (merged_data ps) = total_row ps"
    by (intro ext) (simp add: row_def total_row_def cell_merged_data)
  then show ?thesis by (simp add: merge_results_normal_form handlers_merged_data)
qed

lemma merge_results_Nil: "merge_results [] = []"
  by (simp add: merge_results_def merged_data_def)

section \<open>Merging partial results\<close>

text \<open>
  C2. Merging partial aggregates with \<^verbatim>\<open>_merge_results\<close> is commutative and
  associative. The rows do not depend on the order of the partial results: any list with
  the same partial results, in another order, gives the same rows. Merging step by step
  gives what merging all at once gives: the table \<open>merged_data xs\<close> that the loops have
  built after the sources \<open>xs\<close> is itself a partial result, and it can stand for \<open>xs\<close>, in
  front or at the end, and \<open>(a, b), c\<close> gives what \<open>a, (b, c)\<close> gives. Cell by cell, the
  counter of a handler is the sum over the partial results of their cell for that handler
  and level, an absent handler or level counting as zero; the handlers are those with at
  least one counter in some partial result, in ascending order. No partial results give
  no rows.
\<close>

theorem merge_results_associative_commutative:
  "(mset qs = mset ps \<longrightarrow> merge_results qs = merge_results ps)
   \<and> merge_results (merged_data xs # ys) = merge_results (xs @ ys)
   \<and> merge_results (xs @ [merged_data ys]) = merge_results (xs @ ys)
   \<and> merge_results [merged_data [a, b], c] = merge_results [a, merged_data [b, c]]
   \<and> ((\<forall>p \<in> set ps. dict_of_dicts p) \<longrightarrow>
        merge_results ps
          = map (total_row ps) (sorted_list_of_set (\<Union>p \<in> set ps. contributors p)))
   \<and> merge_results [] = []"
proof -
  have "merge_results [merged_data [a, b], c] = merge_results ([a, b] @ [c])"
    by (rule merge_results_merged_first)
  also have "\<dots> = merge_results ([a] @ [b, c])" by simp
  also have "\<dots> = merge_results ([a] @ [merged_data [b, c]])"
    by (rule merge_results_merged_last[symmetric])
  finally have "merge_results [merged_data [a, b], c] = merge_results [a, merged_data [b, c]]"
    by simp
  then show ?thesis
    using merge_results_permutation[of qs ps] merge_results_merged_first[of xs ys]
      merge_results_merged_last[of xs ys] merge_results_closed_form[of ps] merge_results_Nil
    by blast
qed

theorem merge_results_associative_commutative_witness:
  "merge_results [[(''/a'', [(''error_count'', 1), (''info_count'', 3)])],
                  [(''/b'', [(''info_count'', 2)]), (''/a'', [(''error_count'', 1)])]]
     = merge_results [[(''/b'', [(''info_count'', 2)]), (''/a'', [(''error_count'', 1)])],
                      [(''/a'', [(''error_count'', 1), (''info_count'', 3)])]]
   \<and> merge_results [[(''/b'', [(''info_count'', 2)]), (''/a'', [(''error_count'', 1)])],
                     [(''/a'', [(''error_count'', 1), (''info_count'', 3)])]]
     = map (total_row [[(''/b'', [(''info_count'', 2)]), (''/a'', [(''error_count'', 1)])],
                       [(''/a'', [(''error_count'', 1), (''info_count'', 3)])]])
           (sorted_list_of_set
              (\<Union>p \<in> set [[(''/b'', [(''info_count'', 2)]), (''/a'', [(''error_count'', 1)])],
                            [(''/a'', [(''error_count'', 1), (''info_count'', 3)])]].
                 contributors p))
   \<and> merge_results [[(''/b'', [(''info_count'', 2)]), (''/a'', [(''error_count'', 1)])],
                     [(''/a'', [(''error_count'', 1), (''info_count'', 3)])]]
     = [\<lparr>handler_name = ''/a'', debug_count = 0, info_count = 3, warning_count = 0,
          error_count = 2, critical_count = 0\<rparr>,
        \<lparr>handler_name = ''/b'', debug_count = 0, info_count = 2, warning_count = 0,
          error_count = 0, critical_count = 0\<rparr>]"
proof -
  let ?A = "[(''/b'', [(''info_count'', 2::int)]), (''/a'', [(''error_count'', 1)])]"
  let ?B = "[(''/a'', [(''error_count'', 1::int), (''info_count'', 3)])]"
  have perm: "mset [?B, ?A] = mset [?A, ?B]" by simp
  have dicts: "\<forall>p \<in> set [?A, ?B]. dict_of_dicts p" by (simp add: dict_of_dicts_def)
  have rows: "merge_results [?A, ?B]
     = [\<lparr>handler_name = ''/a'', debug_count = 0, info_count = 3, warning_count = 0,
          error_count = 2, critical_count = 0\<rparr>,
        \<lparr>handler_name = ''/b'', debug_count = 0, info_count = 2, warning_count = 0,
          error_count = 0, critical_count = 0\<rparr>]"
    by code_simp
  from merge_results_associative_commutative[of "[?B, ?A]" "[?A, ?B]" "[]" "[]" "[]" "[]" "[]"] perm
  have "merge_results [?B, ?A] = merge_results [?A, ?B]"
    and "merge_results [?A, ?B]
         = map (total_row [?A, ?B]) (sorted_list_of_set (\<Union>p \<in> set [?A, ?B]. contributors p))"
    using dicts by blast+
  with rows show ?thesis by blast
qed

text \<open>
  C10. The list that \<^verbatim>\<open>_merge_results\<close> returns, and so the list that
  \<^verbatim>\<open>process_files\<close> returns, is in ascending order of \<^verbatim>\<open>handler_name\<close>, with no
  handler twice, for every list of partial results. The order of the rows is fixed at the
  merge; the sort of the renderer finds the list in order and leaves it as it is.
\<close>

theorem merge_results_sorted_by_handler:
  "sorted (map handler_name (merge_results ps))
   \<and> distinct (map handler_name (merge_results ps))
   \<and> sort_key handler_name (merge_results ps) = merge_results ps
   \<and> (process_files pool_map num_workers use_multiprocessing fs file_paths = Inr rows
        \<longrightarrow> sorted (map handler_name rows) \<and> sort_key handler_name rows = rows)"
proof -
  have "sorted (map handler_name rows) \<and> sort_key handler_name rows = rows"
    if "process_files pool_map num_workers use_multiprocessing fs file_paths = Inr rows"
  proof -
    from that obtain results where "rows = merge_results results"
      by (auto simp: process_files_def split: sum.splits error.splits)
    then show ?thesis
      using merge_results_sorted[of results] by (simp add: sort_key_id_if_sorted)
  qed
  then show ?thesis
    using merge_results_sorted[of ps] merge_results_distinct[of ps]
    by (simp add: sort_key_id_if_sorted)
qed

theorem merge_results_sorted_by_handler_witness:
  "process_files (\<lambda>n. collect) 1 False
     (\<lambda>path. Lines [''2024-03-28 10:15:30,123 INFO django.request: GET /api/users/'',
                     ''2024-03-28 10:15:31,456 ERROR django.request: Error: /api/admin/''])
     [''app1.log'']
   = Inr [\<lparr>handler_name = ''/api/admin/'', debug_count = 0, info_count = 0, warning_count = 0,
            error_count = 1, critical_count = 0\<rparr>,
          \<lparr>handler_name = ''/api/users/'', debug_count = 0, info_count = 1, warning_count = 0,
            error_count = 0, critical_count = 0\<rparr>]
   \<and> sorted (map handler_name
        [\<lparr>handler_name = ''/api/admin/'', debug_count = 0, info_count = 0, warning_count = 0,
            error_count = 1, critical_count = 0\<rparr>,
          \<lparr>handler_name = ''/api/users/'', debug_count = 0, info_count = 1, warning_count = 0,
            error_count = 0, critical_count = 0\<rparr>])"
proof -
  let ?fs = "\<lambda>path :: string. Lines [''2024-03-28 10:15:30,123 INFO django.request: GET /api/users/'',
                     ''2024-03-28 10:15:31,456 ERROR django.request: Error: /api/admin/'']"
  let ?rows = "[\<lparr>handler_name = ''/api/admin/'', debug_count = 0, info_count = 0, warning_count = 0,
            error_count = 1, critical_count = 0\<rparr>,
          \<lparr>handler_name = ''/api/users/'', debug_count = 0, info_count = 1, warning_count = 0,
            error_count = 0, critical_count = 0\<rparr>]"
  have run: "process_files (\<lambda>n. collect) 1 False ?fs [''app1.log''] = Inr ?rows"
    by code_simp
  from merge_results_sorted_by_handler[of "[]" "\<lambda>n. collect" 1 False ?fs "[''app1.log'']" ?rows] run
  have "sorted (map handler_name ?rows)" by blast
  with run show ?thesis by blast
qed

section \<open>The report\<close>

text \<open>
  C8. For the empty list of handler statistics \<^verbatim>\<open>HandlersReport.generate\<close> returns the
  fixed no-data message and nothing else: no header, no totals row, no line with the
  total of requests.
\<close>

theorem generate_empty: "generate [] = ''No data available for report.''"
  by (simp add: generate_def no_data_message_def)

lemma format_statistics_text_row:
  "format_statistics title statistics = text_row title (map (\<lambda>field. field statistics) STAT_FIELDS)"
  by (simp add: format_statistics_def text_row_def stat_columns_def STAT_FIELDS_def
      identifier_column_width_def data_column_width_def)

lemma sum_list_sort_key:
  fixes f :: "'a \<Rightarrow> int"
  shows "sum_list (map f (sort_key k xs)) = sum_list (map f xs)"
proof -
  have "mset (map f (sort_key k xs)) = mset (map f xs)" by simp
  then show ?thesis by (metis sum_mset_sum_list)
qed

lemma last_report_lines: "last (report_lines stats) = format_totals_line (create_totals stats)"
  by (simp add: report_lines_def Let_def)

text \<open>
  C5. For every non-empty list of handler statistics, the report is the lines of
  \<^verbatim>\<open>report_lines\<close> joined by newlines: the line with the total of requests, whose number
  is the sum of all counters of all handlers, the header, one row for each handler, in
  ascending order of the handler's name, and the totals row, last, with an empty
  identifier and, in each of its five columns, the sum of that column over the rows of
  the handlers.
\<close>

theorem generate_report_rows:
  "log_statistics \<noteq> [] \<Longrightarrow>
   generate log_statistics = join [CHR 0x0A] (report_lines log_statistics)
   \<and> report_lines log_statistics =
       [''Total requests: ''
          @ str_int (sum_list (map (\<lambda>stat. debug_count stat + info_count stat + warning_count stat
                                        + error_count stat + critical_count stat)
                                  (sort_key handler_name log_statistics)))
          @ [CHR 0x0A],
        get_header]
       @ map (\<lambda>stat. text_row (handler_name stat) (map (\<lambda>field. field stat) STAT_FIELDS))
             (sort_key handler_name log_statistics)
       @ [text_row [] (map (\<lambda>field. sum_list (map field (sort_key handler_name log_statistics)))
                           STAT_FIELDS)]
   \<and> sorted (map handler_name (sort_key handler_name log_statistics))
   \<and> mset (sort_key handler_name log_statistics) = mset log_statistics
   \<and> length (report_lines log_statistics) = length log_statistics + 3
   \<and> last (report_lines log_statistics)
       = text_row [] (map (\<lambda>field. sum_list (map field (sort_key handler_name log_statistics)))
                          STAT_FIELDS)"
proof -
  assume ne: "log_statistics \<noteq> []"
  let ?rows = "sort_key handler_name log_statistics"
  have total: "calculate_total log_statistics
      = sum_list (map (\<lambda>stat. debug_count stat + info_count stat + warning_count stat
                                        + error_count stat + critical_count stat) ?rows)"
    by (simp add: calculate_total_def STAT_FIELDS_def sum_list_sort_key add.assoc)
  have totals: "format_totals_line (create_totals log_statistics)
      = text_row [] (map (\<lambda>field. sum_list (map field ?rows)) STAT_FIELDS)"
    by (simp add: format_totals_line_def format_statistics_text_row create_totals_def
        STAT_FIELDS_def sum_list_sort_key)
  have rows: "map format_handler_line ?rows
      = map (\<lambda>stat. text_row (handler_name stat) (map (\<lambda>field. field stat) STAT_FIELDS)) ?rows"
    by (simp add: format_handler_line_def format_statistics_text_row)
  have lines: "report_lines log_statistics =
       [''Total requests: ''
          @ str_int (sum_list (map (\<lambda>stat. debug_count stat + info_count stat + warning_count stat
                                        + error_count stat + critical_count stat) ?rows))
          @ [CHR 0x0A],
        get_header]
       @ map (\<lambda>stat. text_row (handler_name stat) (map (\<lambda>field. field stat) STAT_FIELDS)) ?rows
       @ [text_row [] (map (\<lambda>field. sum_list (map field ?rows)) STAT_FIELDS)]"
    unfolding report_lines_def Let_def total totals rows by (rule refl)
  have gen: "generate log_statistics = join [CHR 0x0A] (report_lines log_statistics)"
    using ne by (simp add: generate_def)
  have srt: "sorted (map handler_name ?rows)" by (rule sorted_sort_key)
  have ms: "mset ?rows = mset log_statistics" by simp
  have len: "length (report_lines log_statistics) = length log_statistics + 3"
    by (simp add: report_lines_def Let_def)
  have lst: "last (report_lines log_statistics)
       = text_row [] (map (\<lambda>field. sum_list (map field ?rows)) STAT_FIELDS)"
    by (simp add: last_report_lines totals)
  from gen lines srt ms len lst show ?thesis by blast
qed

theorem generate_report_rows_witness:
  "generate [\<lparr>handler_name = ''/api/users/'', debug_count = 0, info_count = 1,
               warning_count = 0, error_count = 1, critical_count = 0\<rparr>,
             \<lparr>handler_name = ''/api/admin/'', debug_count = 0, info_count = 10,
               warning_count = 0, error_count = 1, critical_count = 0\<rparr>]
   = join [CHR 0x0A]
       (report_lines [\<lparr>handler_name = ''/api/users/'', debug_count = 0, info_count = 1,
                        warning_count = 0, error_count = 1, critical_count = 0\<rparr>,
                      \<lparr>handler_name = ''/api/admin/'', debug_count = 0, info_count = 10,
                        warning_count = 0, error_count = 1, critical_count = 0\<rparr>])
   \<and> generate [\<lparr>handler_name = ''/api/users/'', debug_count = 0, info_count = 1,
                 warning_count = 0, error_count = 1, critical_count = 0\<rparr>,
               \<lparr>handler_name = ''/api/admin/'', debug_count = 0, info_count = 10,
                 warning_count = 0, error_count = 1, critical_count = 0\<rparr>]
   = ''Total requests: 13'' @ [CHR 0x0A, CHR 0x0A]
      @ ''HANDLER             '' @ [CHR 0x09] @ ''DEBUG  '' @ [CHR 0x09] @ ''INFO   '' @ [CHR 0x09]
      @ ''WARNING'' @ [CHR 0x09] @ ''ERROR  '' @ [CHR 0x09] @ ''CRITICAL'' @ [CHR 0x0A]
      @ ''/api/admin/         '' @ [CHR 0x09] @ ''0      '' @ [CHR 0x09] @ ''10     '' @ [CHR 0x09]
      @ ''0      '' @ [CHR 0x09] @ ''1      '' @ [CHR 0x09] @ ''0      '' @ [CHR 0x0A]
      @ ''/api/users/         '' @ [CHR 0x09] @ ''0      '' @ [CHR 0x09] @ ''1      '' @ [CHR 0x09]
      @ ''0      '' @ [CHR 0x09] @ ''1      '' @ [CHR 0x09] @ ''0      '' @ [CHR 0x0A]
      @ ''                    '' @ [CHR 0x09] @ ''0      '' @ [CHR 0x09] @ ''11     '' @ [CHR 0x09]
      @ ''0      '' @ [CHR 0x09] @ ''2      '' @ [CHR 0x09] @ ''0      ''"
proof -
  let ?stats = "[\<lparr>handler_name = ''/api/users/'', debug_count = 0, info_count = 1,
                   warning_count = 0, error_count = 1, critical_count = 0\<rparr>,
                 \<lparr>handler_name = ''/api/admin/'', debug_count = 0, info_count = 10,
                   warning_count = 0, error_count = 1, critical_count = 0\<rparr>]"
  have ne: "?stats \<noteq> []" by simp
  from generate_report_rows[OF ne]
  have 1: "generate ?stats = join [CHR 0x0A] (report_lines ?stats)" by blast
  have 2: "generate ?stats
   = ''Total requests: 13'' @ [CHR 0x0A, CHR 0x0A]
      @ ''HANDLER             '' @ [CHR 0x09] @ ''DEBUG  '' @ [CHR 0x09] @ ''INFO   '' @ [CHR 0x09]
      @ ''WARNING'' @ [CHR 0x09] @ ''ERROR  '' @ [CHR 0x09] @ ''CRITICAL'' @ [CHR 0x0A]
      @ ''/api/admin/         '' @ [CHR 0x09] @ ''0      '' @ [CHR 0x09] @ ''10     '' @ [CHR 0x09]
      @ ''0      '' @ [CHR 0x09] @ ''1      '' @ [CHR 0x09] @ ''0      '' @ [CHR 0x0A]
      @ ''/api/users/         '' @ [CHR 0x09] @ ''0      '' @ [CHR 0x09] @ ''1      '' @ [CHR 0x09]
      @ ''0      '' @ [CHR 0x09] @ ''1      '' @ [CHR 0x09] @ ''0      '' @ [CHR 0x0A]
      @ ''                    '' @ [CHR 0x09] @ ''0      '' @ [CHR 0x09] @ ''11     '' @ [CHR 0x09]
      @ ''0      '' @ [CHR 0x09] @ ''2      '' @ [CHR 0x09] @ ''0      ''"
    by code_simp
  from 1 2 show ?thesis by (rule conjI)
qed

section \<open>What the patterns accept\<close>

lemma rmatch_plain:
  assumes "no_groups r"
  shows "(s', g') \<in> set (rmatch r (s, g)) \<longleftrightarrow> g' = g \<and> (\<exists>w \<in> lang r. s = w @ s')"
proof
  assume m: "(s', g') \<in> set (rmatch r (s, g))"
  from rmatch_groups_same[OF assms m] rmatch_sound[OF m]
  show "g' = g \<and> (\<exists>w \<in> lang r. s = w @ s')" by simp
next
  assume "g' = g \<and> (\<exists>w \<in> lang r. s = w @ s')"
  then obtain w where w: "w \<in> lang r" "s = w @ s'" and g: "g' = g" by blast
  from rmatch_complete[OF w(1), of s' g] obtain g0
    where m: "(s', g0) \<in> set (rmatch r (w @ s', g))" by blast
  from rmatch_groups_same[OF assms m] have "g0 = g" by simp
  with m w g show "(s', g') \<in> set (rmatch r (s, g))" by simp
qed

lemma rmatch_Grp_plain:
  assumes "no_groups r"
  shows "(s', g') \<in> set (rmatch (Grp n r) (s, g))
           \<longleftrightarrow> (\<exists>w \<in> lang r. s = w @ s' \<and> g' = (n, w) # g)"
proof
  assume "(s', g') \<in> set (rmatch (Grp n r) (s, g))"
  then obtain g0 where m: "(s', g0) \<in> set (rmatch r (s, g))"
    and g': "g' = (n, take (length s - length s') s) # g0" by auto
  from m assms obtain w where "g0 = g" "w \<in> lang r" "s = w @ s'"
    by (auto simp: rmatch_plain)
  with g' show "\<exists>w \<in> lang r. s = w @ s' \<and> g' = (n, w) # g" by auto
next
  assume "\<exists>w \<in> lang r. s = w @ s' \<and> g' = (n, w) # g"
  then obtain w where w: "w \<in> lang r" "s = w @ s'" "g' = (n, w) # g" by blast
  with assms have "(s', g) \<in> set (rmatch r (s, g))" by (auto simp: rmatch_plain)
  then have "(s', (n, take (length s - length s') s) # g) \<in> set (rmatch (Grp n r) (s, g))"
    by force
  with w show "(s', g') \<in> set (rmatch (Grp n r) (s, g))" by simp
qed

lemma lang_Seq: "lang (Seq r1 r2) = conc (lang r1) (lang r2)"
  by (simp add: conc_def)

lemma conc_assoc: "conc (conc A B) C = conc A (conc B C)"
  unfolding conc_def
  apply (rule set_eqI)
  apply (simp)
  apply (metis append.assoc)
  done

lemma conc_Nil_left: "conc {[]} A = A"
  by (auto simp: conc_def)

lemma conc_Nil_right: "conc A {[]} = A"
  by (auto simp: conc_def)

lemma conc_mem: "w \<in> conc A B \<longleftrightarrow> (\<exists>u v. w = u @ v \<and> u \<in> A \<and> v \<in> B)"
  by (auto simp: conc_def)

lemma conc_single_mem: "w \<in> conc {[c]} B \<longleftrightarrow> (\<exists>v. w = c # v \<and> v \<in> B)"
  by (auto simp: conc_def)

lemma lang_Lit: "lang (Lit s) = {s}"
  by (induction s) (auto)

lemma no_groups_Lit: "no_groups (Lit s)"
  by (induction s) auto

lemma no_groups_Rep: "no_groups (Rep n r) = (n = 0 \<or> no_groups r)"
  by (induction n) auto

lemma star_Cls: "star {[x] | x. p x} = {w. list_all p w}"
proof (rule set_eqI, rule iffI)
  fix w assume "w \<in> star {[x] | x. p x}"
  then show "w \<in> {w. list_all p w}" by induction auto
next
  fix w assume "w \<in> {w. list_all p w}"
  then have "list_all p w" by simp
  then show "w \<in> star {[x] | x. p x}"
  proof (induction w)
    case Nil
    show ?case by (rule star_Nil)
  next
    case (Cons a w)
    then have "[a] \<in> {[x] | x. p x}" "w \<in> star {[x] | x. p x}" by auto
    then have "[a] @ w \<in> star {[x] | x. p x}" by (rule star_App)
    then show ?case by simp
  qed
qed

lemma lang_Plus_Cls: "lang (Plus (Cls p)) = {w. w \<noteq> [] \<and> list_all p w}"
proof (rule set_eqI, rule iffI)
  fix w assume "w \<in> lang (Plus (Cls p))"
  then show "w \<in> {w. w \<noteq> [] \<and> list_all p w}" by (auto simp: Plus_def star_Cls)
next
  fix w assume "w \<in> {w. w \<noteq> [] \<and> list_all p w}"
  then obtain a v where "w = [a] @ v" "p a" "list_all p v" by (cases w) auto
  then show "w \<in> lang (Plus (Cls p))" unfolding Plus_def lang.simps star_Cls by blast
qed

lemma lang_Plus_space: "lang (Plus space) = {w. whitespace w}"
  by (simp add: lang_Plus_Cls whitespace_def)

lemma has_shape_Nil: "has_shape [] s \<longleftrightarrow> s = []"
  by (simp add: has_shape_def)

lemma has_shape_Cons:
  "has_shape (t # ts) s \<longleftrightarrow>
     (\<exists>c cs. s = c # cs \<and> (if t \<in> set ''YMDHSm'' then is_digit c else c = t) \<and> has_shape ts cs)"
  by (simp add: has_shape_def list_all2_Cons1)


lemma conc_Cls_mem: "w \<in> conc {[x] | x. p x} B \<longleftrightarrow> (\<exists>c v. w = c # v \<and> p c \<and> v \<in> B)"
proof
  assume "w \<in> conc {[x] | x. p x} B"
  then show "\<exists>c v. w = c # v \<and> p c \<and> v \<in> B" by (auto simp: conc_def)
next
  assume "\<exists>c v. w = c # v \<and> p c \<and> v \<in> B"
  then obtain c v where "w = [c] @ v" "p c" "v \<in> B" by auto
  then show "w \<in> conc {[x] | x. p x} B" unfolding conc_def by blast
qed

lemma lang_template_char:
  "w \<in> conc (lang (template_char a)) B \<longleftrightarrow>
     (\<exists>c v. w = c # v \<and> (if a \<in> set ''YMDHSm'' then is_digit c else c = a) \<and> v \<in> B)"
proof (cases "a \<in> set ''YMDHSm''")
  case True
  then have "lang (template_char a) = {[x] | x. is_digit x}" by (simp add: template_char_def)
  with True show ?thesis by (simp only: conc_Cls_mem if_True)
next
  case False
  then have "lang (template_char a) = {[a]}" by (simp add: template_char_def)
  with False show ?thesis by (simp only: conc_single_mem if_False) auto
qed

lemma has_shape_lang: "has_shape t s \<longleftrightarrow> s \<in> lang (Seqs (map template_char t))"
proof (induction t arbitrary: s)
  case Nil
  show ?case by (simp add: has_shape_Nil)
next
  case (Cons a t)
  have "s \<in> lang (Seqs (map template_char (a # t)))
          \<longleftrightarrow> s \<in> conc (lang (template_char a)) (lang (Seqs (map template_char t)))"
    by (simp add: conc_def)
  also have "\<dots> \<longleftrightarrow> has_shape (a # t) s"
    unfolding lang_template_char has_shape_Cons Cons.IH[symmetric] by (rule refl)
  finally show ?case by simp
qed

lemma lang_TIMESTAMP_conc:
  "lang TIMESTAMP
      = conc (lang (Seqs (map template_char ''YYYY-MM-DD'')))
          (conc (lang (Plus space)) (lang (Seqs (map template_char ''HH:MM:SS,mmm''))))"
  by (simp add: TIMESTAMP_def eval_nat_numeral template_char_def lang_Seq conc_assoc
          conc_Nil_left conc_Nil_right del: lang.simps(4))

lemma has_shape_Collect: "{s. has_shape t s} = lang (Seqs (map template_char t))"
  by (rule set_eqI) (simp only: has_shape_lang mem_Collect_eq)

lemma lang_TIMESTAMP: "ts \<in> lang TIMESTAMP \<longleftrightarrow> timestamp_text ts"
proof -
  have "lang TIMESTAMP
      = conc {d. has_shape ''YYYY-MM-DD'' d} (conc {w. whitespace w} {t. has_shape ''HH:MM:SS,mmm'' t})"
    by (simp only: lang_TIMESTAMP_conc has_shape_Collect lang_Plus_space)
  then have "ts \<in> lang TIMESTAMP \<longleftrightarrow>
      (\<exists>u v. ts = u @ v \<and> has_shape ''YYYY-MM-DD'' u
         \<and> (\<exists>u' v'. v = u' @ v' \<and> whitespace u' \<and> has_shape ''HH:MM:SS,mmm'' v'))"
    by (simp only: conc_mem mem_Collect_eq)
  also have "\<dots> \<longleftrightarrow> timestamp_text ts"
    unfolding timestamp_text_def by blast
  finally show ?thesis .
qed

lemma lang_LEVEL: "lang LEVEL = set LEVELS"
  by (simp only: LEVEL_def LEVELS_def lang.simps(5) lang_Lit list.set Un_insert_left Un_empty_left)

lemma lang_MESSAGE: "msg \<in> lang MESSAGE \<longleftrightarrow> message_text msg"
  by (simp add: MESSAGE_def lang_Plus_Cls message_text_def)

lemma star_dotted:
  "v \<in> star (conc {[c]} W) \<longleftrightarrow>
     (\<exists>segs. (\<forall>seg \<in> set segs. seg \<in> W) \<and> v = concat (map ((#) c) segs))"
proof
  assume "v \<in> star (conc {[c]} W)"
  then show "\<exists>segs. (\<forall>seg \<in> set segs. seg \<in> W) \<and> v = concat (map ((#) c) segs)"
  proof (induction rule: star.induct)
    case star_Nil
    have "(\<forall>seg \<in> set []. seg \<in> W) \<and> [] = concat (map ((#) c) [])" by simp
    then show ?case by blast
  next
    case (star_App u v)
    from star_App.hyps(1) obtain seg where seg: "u = c # seg" "seg \<in> W"
      by (auto simp: conc_single_mem)
    from star_App.IH obtain segs where segs: "\<forall>seg \<in> set segs. seg \<in> W"
      "v = concat (map ((#) c) segs)" by blast
    from seg segs have "(\<forall>x \<in> set (seg # segs). x \<in> W) \<and> u @ v = concat (map ((#) c) (seg # segs))"
      by simp
    then show ?case by blast
  qed
next
  assume "\<exists>segs. (\<forall>seg \<in> set segs. seg \<in> W) \<and> v = concat (map ((#) c) segs)"
  then obtain segs where "\<forall>seg \<in> set segs. seg \<in> W" "v = concat (map ((#) c) segs)" by blast
  then show "v \<in> star (conc {[c]} W)"
  proof (induction segs arbitrary: v)
    case Nil
    then show ?case by (simp add: star_Nil)
  next
    case (Cons seg segs)
    from Cons.prems(1) have "c # seg \<in> conc {[c]} W" by (simp add: conc_single_mem)
    moreover from Cons.IH[OF _ refl] Cons.prems(1)
    have "concat (map ((#) c) segs) \<in> star (conc {[c]} W)" by simp
    ultimately have "(c # seg) @ concat (map ((#) c) segs) \<in> star (conc {[c]} W)"
      by (rule star_App)
    with Cons.prems(2) show ?case by simp
  qed
qed

lemma lang_COMPONENT_conc:
  "lang COMPONENT
     = conc {''django''} (conc {''.''} (conc {w. w \<noteq> [] \<and> list_all is_word w}
         (star (conc {''.''} {w. w \<noteq> [] \<and> list_all is_word w}))))"
  by (simp only: COMPONENT_def Seqs.simps lang_Seq lang_Lit lang.simps(1) lang.simps(2) lang.simps(6)
        lang_Plus_Cls conc_Nil_right)

lemma lang_COMPONENT: "cp \<in> lang COMPONENT \<longleftrightarrow> component_text cp"
proof
  assume "cp \<in> lang COMPONENT"
  then obtain seg v where cp: "cp = ''django'' @ ''.'' @ seg @ v"
    and seg: "seg \<noteq> []" "list_all is_word seg"
    and v: "v \<in> star (conc {''.''} {w. w \<noteq> [] \<and> list_all is_word w})"
    unfolding lang_COMPONENT_conc conc_mem by blast
  from v obtain segs where segs: "\<forall>s \<in> set segs. s \<noteq> [] \<and> list_all is_word s"
    "v = concat (map ((#) CHR ''.'') segs)"
    unfolding star_dotted by blast
  have "seg # segs \<noteq> []" by simp
  moreover have "\<forall>s \<in> set (seg # segs). s \<noteq> [] \<and> list_all is_word s"
    using seg segs(1) by simp
  moreover have "cp = ''django'' @ concat (map ((#) CHR ''.'') (seg # segs))"
    using cp segs(2) by simp
  ultimately show "component_text cp" unfolding component_text_def by blast
next
  assume "component_text cp"
  then obtain segs where ne: "segs \<noteq> []"
    and w: "\<forall>s \<in> set segs. s \<noteq> [] \<and> list_all is_word s"
    and cp: "cp = ''django'' @ concat (map ((#) CHR ''.'') segs)"
    unfolding component_text_def by blast
  from ne obtain seg segs' where s: "segs = seg # segs'" by (cases segs) auto
  let ?W = "{w. w \<noteq> [] \<and> list_all is_word w}"
  from w s have "concat (map ((#) CHR ''.'') segs') \<in> star (conc {''.''} ?W)"
    unfolding star_dotted by auto
  moreover from w s have "seg \<in> ?W" by simp
  ultimately have "seg @ concat (map ((#) CHR ''.'') segs') \<in> conc ?W (star (conc {''.''} ?W))"
    unfolding conc_mem by blast
  then have "''.'' @ seg @ concat (map ((#) CHR ''.'') segs')
      \<in> conc {''.''} (conc ?W (star (conc {''.''} ?W)))"
    unfolding conc_mem[of _ "{''.''}"] by blast
  then have "''django'' @ ''.'' @ seg @ concat (map ((#) CHR ''.'') segs')
      \<in> conc {''django''} (conc {''.''} (conc ?W (star (conc {''.''} ?W))))"
    unfolding conc_mem[of _ "{''django''}"] by blast
  then show "cp \<in> lang COMPONENT"
    unfolding lang_COMPONENT_conc using cp s by simp
qed

lemma rmatch_Seq_plain:
  assumes "no_groups r"
  shows "x \<in> set (rmatch (Seq r k) (s, g))
           \<longleftrightarrow> (\<exists>w s1. s = w @ s1 \<and> w \<in> lang r \<and> x \<in> set (rmatch k (s1, g)))"
proof
  assume "x \<in> set (rmatch (Seq r k) (s, g))"
  then obtain s1 g1 where m: "(s1, g1) \<in> set (rmatch r (s, g))" and x: "x \<in> set (rmatch k (s1, g1))"
    by auto
  from m assms obtain w where "g1 = g" "w \<in> lang r" "s = w @ s1" by (auto simp: rmatch_plain)
  with x show "\<exists>w s1. s = w @ s1 \<and> w \<in> lang r \<and> x \<in> set (rmatch k (s1, g))" by blast
next
  assume "\<exists>w s1. s = w @ s1 \<and> w \<in> lang r \<and> x \<in> set (rmatch k (s1, g))"
  then obtain w s1 where w: "s = w @ s1" "w \<in> lang r" and x: "x \<in> set (rmatch k (s1, g))" by blast
  from w assms have "(s1, g) \<in> set (rmatch r (s, g))" by (auto simp: rmatch_plain)
  with x show "x \<in> set (rmatch (Seq r k) (s, g))" by (simp, blast)
qed

lemma rmatch_Seq_Grp:
  assumes "no_groups r"
  shows "x \<in> set (rmatch (Seq (Grp n r) k) (s, g))
           \<longleftrightarrow> (\<exists>w s1. s = w @ s1 \<and> w \<in> lang r \<and> x \<in> set (rmatch k (s1, (n, w) # g)))"
proof
  assume "x \<in> set (rmatch (Seq (Grp n r) k) (s, g))"
  then obtain s1 g1 where m: "(s1, g1) \<in> set (rmatch (Grp n r) (s, g))"
    and x: "x \<in> set (rmatch k (s1, g1))"
    by (simp, blast)
  from m obtain w where "w \<in> lang r" "s = w @ s1" "g1 = (n, w) # g"
    unfolding rmatch_Grp_plain[OF assms] by blast
  with x show "\<exists>w s1. s = w @ s1 \<and> w \<in> lang r \<and> x \<in> set (rmatch k (s1, (n, w) # g))" by blast
next
  assume "\<exists>w s1. s = w @ s1 \<and> w \<in> lang r \<and> x \<in> set (rmatch k (s1, (n, w) # g))"
  then obtain w s1 where w: "s = w @ s1" "w \<in> lang r"
    and x: "x \<in> set (rmatch k (s1, (n, w) # g))" by blast
  from w have "(s1, (n, w) # g) \<in> set (rmatch (Grp n r) (s, g))"
    unfolding rmatch_Grp_plain[OF assms] by blast
  with x show "x \<in> set (rmatch (Seq (Grp n r) k) (s, g))" by (simp, blast)
qed

lemma no_groups_Plus: "no_groups (Plus r) = no_groups r"
  by (simp add: Plus_def)

lemma no_groups_parts:
  "no_groups TIMESTAMP" "no_groups LEVEL" "no_groups COMPONENT" "no_groups MESSAGE"
  "no_groups METHOD" "no_groups PATH"
  by (simp_all add: TIMESTAMP_def LEVEL_def COMPONENT_def MESSAGE_def METHOD_def PATH_def
        no_groups_Plus no_groups_Rep no_groups_Lit del: Lit.simps Rep.simps)

lemma rmatch_Eps_mem: "x \<in> set (rmatch Eps st) \<longleftrightarrow> x = st"
  by auto

lemma BASE_PATTERN_mem:
  "(s', g') \<in> set (rmatch BASE_PATTERN (line, g)) \<longleftrightarrow>
     (\<exists>ts ws1 lv ws2 cp ws3 msg.
        line = ts @ ws1 @ lv @ ws2 @ cp @ '':'' @ ws3 @ msg @ s'
        \<and> timestamp_text ts \<and> whitespace ws1 \<and> lv \<in> set LEVELS \<and> whitespace ws2
        \<and> component_text cp \<and> whitespace ws3 \<and> message_text msg
        \<and> g' = (''message'', msg) # (''component'', cp) # (''level'', lv) # (''timestamp'', ts) # g)"
proof -
  have sp: "no_groups (Plus space)" by (simp add: no_groups_Plus)
  have ch: "no_groups (Chr c)" for c by simp
  have "(s', g') \<in> set (rmatch BASE_PATTERN (line, g)) \<longleftrightarrow>
     (\<exists>ts s1. line = ts @ s1 \<and> timestamp_text ts \<and>
       (\<exists>ws1 s2. s1 = ws1 @ s2 \<and> whitespace ws1 \<and>
         (\<exists>lv s3. s2 = lv @ s3 \<and> lv \<in> set LEVELS \<and>
           (\<exists>ws2 s4. s3 = ws2 @ s4 \<and> whitespace ws2 \<and>
             (\<exists>cp s5. s4 = cp @ s5 \<and> component_text cp \<and>
               (\<exists>c s6. s5 = c @ s6 \<and> c = '':'' \<and>
                 (\<exists>ws3 s7. s6 = ws3 @ s7 \<and> whitespace ws3 \<and>
                   (\<exists>msg s8. s7 = msg @ s8 \<and> message_text msg \<and>
                      (s', g') = (s8, (''message'', msg) # (''component'', cp) # (''level'', lv)
                                        # (''timestamp'', ts) # g)))))))))"
    unfolding BASE_PATTERN_def Seqs.simps
      rmatch_Seq_Grp[OF no_groups_parts(1)] rmatch_Seq_Grp[OF no_groups_parts(2)]
      rmatch_Seq_Grp[OF no_groups_parts(3)] rmatch_Seq_Grp[OF no_groups_parts(4)]
      rmatch_Seq_plain[OF sp] rmatch_Seq_plain[OF ch] rmatch_Eps_mem
      lang_TIMESTAMP lang_LEVEL lang_COMPONENT lang_MESSAGE lang_Plus_space lang.simps(2)
      mem_Collect_eq singleton_iff
    by (rule refl)
  also have "\<dots> \<longleftrightarrow>
     (\<exists>ts ws1 lv ws2 cp ws3 msg.
        line = ts @ ws1 @ lv @ ws2 @ cp @ '':'' @ ws3 @ msg @ s'
        \<and> timestamp_text ts \<and> whitespace ws1 \<and> lv \<in> set LEVELS \<and> whitespace ws2
        \<and> component_text cp \<and> whitespace ws3 \<and> message_text msg
        \<and> g' = (''message'', msg) # (''component'', cp) # (''level'', lv) # (''timestamp'', ts) # g)"
    apply (rule iffI)
     apply (elim exE conjE)
     apply (simp only: prod.inject)
     apply (elim conjE)
     apply hypsubst
     apply (intro exI conjI)
             apply (rule refl | assumption)+
    apply (elim exE conjE)
    apply hypsubst
    apply (intro exI conjI)
                        apply (rule refl | assumption)+
    done
  finally show ?thesis .
qed

lemma lang_PATH: "p \<in> lang PATH \<longleftrightarrow> path_text p"
  unfolding PATH_def lang_Seq lang.simps(2) conc_single_mem lang_Plus_Cls path_text_def
  by simp

lemma re_match_None: "re_match r s = None \<longleftrightarrow> rmatch r (s, []) = []"
  by (simp add: re_match_def split: list.splits)

lemma re_match_Some: "re_match r s = Some g \<Longrightarrow> \<exists>s'. (s', g) \<in> set (rmatch r (s, []))"
  by (cases "rmatch r (s, [])") (auto simp: re_match_def)

lemma re_search_Some:
  "re_search r s = Some g \<Longrightarrow> \<exists>s0 s'. (s', g) \<in> set (rmatch r (s0, []))"
proof (induction s)
  case Nil
  then show ?case using re_match_Some[of r "[]" g] by auto
next
  case (Cons x xs)
  show ?case
  proof (cases "re_match r (x # xs)")
    case None
    with Cons show ?thesis by simp
  next
    case (Some a)
    with Cons.prems have "re_match r (x # xs) = Some g" by simp
    from re_match_Some[OF this] show ?thesis by blast
  qed
qed

lemma REQUEST_PATTERN_mem:
  "(s', g') \<in> set (rmatch REQUEST_PATTERN (s, g)) \<Longrightarrow>
     (\<exists>p. path_text p \<and> (g' = (''handler'', p) # g \<or> g' = (''error_handler'', p) # g))"
proof -
  assume m: "(s', g') \<in> set (rmatch REQUEST_PATTERN (s, g))"
  have sp: "no_groups (Plus space)" by (simp add: no_groups_Plus)
  have lit: "no_groups (Lit ''Error:'')" by (rule no_groups_Lit)
  from m have "(s', g') \<in> set (rmatch (Seq METHOD (Seq (Plus space) (Seq (Grp ''handler'' PATH) Eps))) (s, g))
      \<or> (s', g') \<in> set (rmatch (Seq (Lit ''Error:'') (Seq (Plus space) (Seq (Grp ''error_handler'' PATH) Eps))) (s, g))"
    unfolding REQUEST_PATTERN_def Seqs.simps by simp
  then show ?thesis
  proof
    assume "(s', g') \<in> set (rmatch (Seq METHOD (Seq (Plus space) (Seq (Grp ''handler'' PATH) Eps))) (s, g))"
    then obtain p where "p \<in> lang PATH" "g' = (''handler'', p) # g"
      unfolding rmatch_Seq_plain[OF no_groups_parts(5)] rmatch_Seq_plain[OF sp]
        rmatch_Seq_Grp[OF no_groups_parts(6)] rmatch_Eps_mem
      by blast
    then show ?thesis by (auto simp: lang_PATH)
  next
    assume "(s', g') \<in> set (rmatch (Seq (Lit ''Error:'') (Seq (Plus space) (Seq (Grp ''error_handler'' PATH) Eps))) (s, g))"
    then obtain p where "p \<in> lang PATH" "g' = (''error_handler'', p) # g"
      unfolding rmatch_Seq_plain[OF lit] rmatch_Seq_plain[OF sp]
        rmatch_Seq_Grp[OF no_groups_parts(6)] rmatch_Eps_mem
      by blast
    then show ?thesis by (auto simp: lang_PATH)
  qed
qed

lemma path_text_nonempty: "path_text p \<Longrightarrow> p \<noteq> []"
  by (auto simp: path_text_def)

lemma request_handler:
  assumes "re_search REQUEST_PATTERN message = Some request_match"
  shows "\<exists>p. path_text p \<and>
           py_or (group request_match ''handler'') (group request_match ''error_handler'') = Some p"
proof -
  from re_search_Some[OF assms] obtain s0 s'
    where "(s', request_match) \<in> set (rmatch REQUEST_PATTERN (s0, []))" by blast
  from REQUEST_PATTERN_mem[OF this] obtain p where p: "path_text p"
    and g: "request_match = [(''handler'', p)] \<or> request_match = [(''error_handler'', p)]" by blast
  from g path_text_nonempty[OF p]
  have "py_or (group request_match ''handler'') (group request_match ''error_handler'') = Some p"
    by (auto simp: py_or_def group_def)
  with p show ?thesis by blast
qed

lemma base_match_groups:
  assumes "re_match BASE_PATTERN line = Some data"
  shows "\<exists>ts lv cp msg. log_line_parts line ts lv cp msg
           \<and> data = [(''message'', msg), (''component'', cp), (''level'', lv), (''timestamp'', ts)]"
proof -
  from re_match_Some[OF assms] obtain s' where "(s', data) \<in> set (rmatch BASE_PATTERN (line, []))"
    by blast
  then show ?thesis unfolding BASE_PATTERN_mem log_line_parts_def by blast
qed

lemma base_match_None:
  "re_match BASE_PATTERN line = None \<longleftrightarrow> \<not> (\<exists>ts lv cp msg. log_line_parts line ts lv cp msg)"
proof -
  have "rmatch BASE_PATTERN (line, []) = [] \<longleftrightarrow> (\<forall>s' g'. (s', g') \<notin> set (rmatch BASE_PATTERN (line, [])))"
    by (cases "rmatch BASE_PATTERN (line, [])") auto
  then show ?thesis
    unfolding re_match_None BASE_PATTERN_mem log_line_parts_def by blast
qed

lemma parse_log_line_cases:
  obtains
    (unmatched) "\<not> (\<exists>ts lv cp msg. log_line_parts line ts lv cp msg)"
      "parse_log_line line = Inr None"
  | (plain) ts lv cp msg where "log_line_parts line ts lv cp msg"
      "parse_log_line line
         = Inr (Some [(''message'', msg), (''component'', cp), (''level'', lv), (''timestamp'', ts)])"
  | (handler) ts lv msg p where "log_line_parts line ts lv REQUEST msg" "path_text p"
      "parse_log_line line
         = Inr (Some [(''message'', msg), (''component'', REQUEST), (''level'', lv),
                      (''timestamp'', ts), (''handler'', p)])"
proof (cases "re_match BASE_PATTERN line")
  case None
  then have "parse_log_line line = Inr None" by (simp add: parse_log_line_def)
  with None unmatched show ?thesis by (simp add: base_match_None)
next
  case (Some data)
  from base_match_groups[OF Some] obtain ts lv cp msg
    where parts: "log_line_parts line ts lv cp msg"
      and data: "data = [(''message'', msg), (''component'', cp), (''level'', lv), (''timestamp'', ts)]"
    by blast
  show ?thesis
  proof (cases "cp = REQUEST")
    case False
    with Some data have "parse_log_line line = Inr (Some data)"
      by (simp add: parse_log_line_def group_def)
    with parts data plain show ?thesis by blast
  next
    case True
    show ?thesis
    proof (cases "re_search REQUEST_PATTERN msg")
      case None
      with Some data True have "parse_log_line line = Inr (Some data)"
        by (simp add: parse_log_line_def group_def)
      with parts data plain show ?thesis by blast
    next
      case (Some request_match)
      from request_handler[OF Some] obtain p where p: "path_text p"
        and o: "py_or (group request_match ''handler'') (group request_match ''error_handler'') = Some p"
        by blast
      from p have ne: "p \<noteq> []" by (rule path_text_nonempty)
      have "parse_log_line line = Inr (Some (AList.update ''handler'' p data))"
        using \<open>re_match BASE_PATTERN line = Some data\<close> Some o ne data True
        by (simp add: parse_log_line_def group_def)
      also have "AList.update ''handler'' p data
          = [(''message'', msg), (''component'', REQUEST), (''level'', lv),
             (''timestamp'', ts), (''handler'', p)]"
        by (simp add: data True)
      finally show ?thesis using parts p True handler by blast
    qed
  qed
qed

section \<open>One source, line by line\<close>

lemma path_text_ok: "path_text p \<Longrightarrow> handler_key_ok p"
  by (auto simp: path_text_def handler_key_ok_def not_space_def is_space_def code_point_def)

lemma attribution_ok: "attribution line = Some (h, l) \<Longrightarrow> handler_key_ok h"
proof (cases line rule: parse_log_line_cases)
  case unmatched
  assume "attribution line = Some (h, l)"
  with unmatched show ?thesis by (simp add: attribution_def)
next
  case (plain ts lv cp msg)
  assume "attribution line = Some (h, l)"
  with plain show ?thesis by (simp add: attribution_def group_def split: if_splits)
next
  case (handler ts lv msg p)
  assume "attribution line = Some (h, l)"
  with handler have "h = p" by (simp add: attribution_def group_def split: if_splits)
  with handler show ?thesis by (simp add: path_text_ok)
qed

lemma process_line_count_line: "process_line d line = Inr (count_line line d)"
proof (cases line rule: parse_log_line_cases)
  case unmatched
  then show ?thesis by (simp add: process_line_def count_line_def attribution_def)
next
  case (plain ts lv cp msg)
  then show ?thesis by (simp add: process_line_def count_line_def attribution_def group_def)
next
  case (handler ts lv msg p)
  then show ?thesis by (simp add: process_line_def count_line_def attribution_def group_def)
qed

lemma process_lines_fold: "process_lines d lines = Inr (fold count_line lines d)"
  by (induction lines arbitrary: d) (simp_all add: process_line_count_line)

lemma cell_count_line:
  "cell (count_line line d) h l = cell d h l + (if attribution line = Some (h, l) then 1 else 0)"
  by (cases "attribution line") (auto simp: count_line_def cell_increment split: if_splits)

lemma handlers_count_line:
  "handlers (count_line line d) = handlers d \<union> {h. \<exists>l. attribution line = Some (h, l)}"
  by (cases "attribution line") (auto simp: count_line_def handlers_increment)

lemma well_formed_count_line: "well_formed d \<Longrightarrow> well_formed (count_line line d)"
  by (cases "attribution line") (auto simp: count_line_def well_formed_increment)

lemma cell_fold_count_line:
  "cell (fold count_line lines d) h l
     = cell d h l + int (length (filter (\<lambda>line. attribution line = Some (h, l)) lines))"
  by (induction lines arbitrary: d) (simp_all add: cell_count_line)

lemma handlers_fold_count_line:
  "handlers (fold count_line lines d)
     = handlers d \<union> {h. \<exists>line \<in> set lines. \<exists>l. attribution line = Some (h, l)}"
  by (induction lines arbitrary: d) (auto simp: handlers_count_line)

lemma well_formed_fold_count_line: "well_formed d \<Longrightarrow> well_formed (fold count_line lines d)"
  by (induction lines arbitrary: d) (simp_all add: well_formed_count_line)

lemma well_formed_dict: "well_formed d \<Longrightarrow> dict_of_dicts d"
  by (simp add: well_formed_def dict_of_dicts_def)

lemma handlers_Nil: "handlers [] = {}"
  by (simp add: handlers_def)

lemma split_merge:
  fixes xs ys :: "string list"
  defines "a \<equiv> fold count_line xs []" and "b \<equiv> fold count_line ys []"
    and "c \<equiv> fold count_line (xs @ ys) []"
  shows "merge_results [a, b] = merge_results [c]"
    and "handlers (merged_data [a, b]) = handlers c"
    and "cell (merged_data [a, b]) h l = cell c h l"
proof -
  have wf: "well_formed a" "well_formed b" "well_formed c"
    unfolding a_def b_def c_def by (simp_all add: well_formed_fold_count_line well_formed_Nil)
  have con: "contribution a h l + contribution b h l = contribution c h l" for h l
    using wf by (simp add: contribution_dict well_formed_dict)
      (simp add: a_def b_def c_def cell_fold_count_line cell_Nil)
  have han: "contributors a \<union> contributors b = contributors c"
    using wf by (simp add: contributors_well_formed)
      (auto simp add: a_def b_def c_def handlers_fold_count_line handlers_Nil)
  show "merge_results [a, b] = merge_results [c]"
    by (rule merge_results_cong) (simp_all add: con han)
  show "handlers (merged_data [a, b]) = handlers c"
    using han wf(3) by (simp add: handlers_merged_data contributors_well_formed)
  show "cell (merged_data [a, b]) h l = cell c h l"
    using con[of h l] wf(3) by (simp add: cell_merged_data contribution_dict well_formed_dict)
qed

lemma collect_Inr:
  "collect f xs = Inr ys \<Longrightarrow> \<forall>y \<in> set ys. \<exists>x \<in> set xs. f x = Inr y"
proof (induction xs arbitrary: ys)
  case Nil
  then show ?case by simp
next
  case (Cons x xs)
  from Cons.prems obtain y ys' where y: "f x = Inr y" and ys': "collect f xs = Inr ys'"
    and ys: "ys = y # ys'"
    by (auto split: sum.splits)
  from Cons.IH[OF ys'] y ys show ?case by auto
qed


lemma process_single_file_Lines:
  "fs file_path = Lines ls \<Longrightarrow> process_single_file fs file_path = Inr (fold count_line ls [])"
  by (simp add: process_single_file_def read_logs_def process_lines_fold)

lemma process_single_file_Inr:
  "process_single_file fs file_path = Inr result \<Longrightarrow> \<exists>ls. result = fold count_line ls []"
  by (cases "fs file_path")
     (auto simp: process_single_file_def read_logs_def process_lines_fold)

lemma handlers_result_ok:
  "h \<in> handlers (fold count_line ls []) \<Longrightarrow> handler_key_ok h"
  by (auto simp: handlers_fold_count_line handlers_Nil dest: attribution_ok)

lemma set_handler_names:
  "set (map handler_name (merge_results ps)) = handlers (merged_data ps)"
proof -
  have "map handler_name (merge_results ps) = map fst (sort_key fst (merged_data ps))"
    by (simp add: merge_results_def to_report_data_def case_prod_beta comp_def)
  then show ?thesis by (simp add: handlers_def)
qed

lemma contributors_subset: "contributors p \<subseteq> fst ` set p"
  by (force simp: contributors_def)

lemma merge_results_keys_ok:
  assumes "\<forall>p \<in> set ps. \<forall>h \<in> fst ` set p. handler_key_ok h"
  shows "\<forall>r \<in> set (merge_results ps). handler_key_ok (handler_name r)"
proof
  fix r assume "r \<in> set (merge_results ps)"
  then have "handler_name r \<in> set (map handler_name (merge_results ps))" by simp
  then have "handler_name r \<in> (\<Union>p \<in> set ps. contributors p)"
    by (simp only: set_handler_names handlers_merged_data)
  then obtain p where "p \<in> set ps" "handler_name r \<in> contributors p" by blast
  with contributors_subset[of p] assms show "handler_key_ok (handler_name r)" by blast
qed

lemma handler_key_ok_iff:
  "handler_key_ok h \<longleftrightarrow> h \<noteq> [] \<and> hd h = CHR ''/'' \<and> (\<forall>c \<in> set h. \<not> is_space c)"
  by (cases h) (auto simp: handler_key_ok_def not_space_def list_all_iff)

lemma process_files_sequential_Inr:
  assumes "process_files pool_map n False fs file_paths = Inr rows"
  shows "\<exists>results. collect (process_single_file fs) file_paths = Inr results
           \<and> rows = merge_results results"
  using assms by (auto simp: process_files_def split: sum.splits error.splits)

section \<open>Parsing a line\<close>







text \<open>
  C7. A parsed line whose component is not \<^verbatim>\<open>django.request\<close> carries no handler,
  whatever its message says, and it adds nothing to any counter of any handler: the table
  is the same after the line as before, and the table of a whole source is the same with
  the line as without it.
\<close>

theorem other_components_have_no_handler:
  "parse_log_line line = Inr (Some data) \<Longrightarrow> group data ''component'' \<noteq> Some REQUEST \<Longrightarrow>
     group data ''handler'' = None
     \<and> process_line handlers_data line = Inr handlers_data
     \<and> process_lines handlers_data (before @ line # after)
         = process_lines handlers_data (before @ after)"
proof -
  assume p: "parse_log_line line = Inr (Some data)" and c: "group data ''component'' \<noteq> Some REQUEST"
  have h: "group data ''handler'' = None"
  proof (cases line rule: parse_log_line_cases)
    case unmatched
    with p show ?thesis by simp
  next
    case (plain ts lv cp msg)
    with p show ?thesis by (auto simp add: group_def)
  next
    case (handler ts lv msg p')
    with p c show ?thesis by (auto simp add: group_def)
  qed
  from p c have "attribution line = None" by (simp add: attribution_def)
  then have s: "count_line line d = d" for d by (simp add: count_line_def)
  from s have "process_line handlers_data line = Inr handlers_data"
    by (simp add: process_line_count_line)
  moreover from s have "process_lines handlers_data (before @ line # after)
         = process_lines handlers_data (before @ after)"
    by (simp add: process_lines_fold)
  ultimately show ?thesis using h by blast
qed

theorem other_components_have_no_handler_witness:
  "parse_log_line ''2024-03-28 10:15:32,789 INFO django.db.backends: GET /api/users/''
     = Inr (Some [(''message'', ''GET /api/users/''), (''component'', ''django.db.backends''),
                  (''level'', ''INFO''), (''timestamp'', ''2024-03-28 10:15:32,789'')])
   \<and> group [(''message'', ''GET /api/users/''), (''component'', ''django.db.backends''),
            (''level'', ''INFO''), (''timestamp'', ''2024-03-28 10:15:32,789'')] ''handler'' = None
   \<and> process_line [(''/api/users/'', [(''info_count'', 1)])]
         ''2024-03-28 10:15:32,789 INFO django.db.backends: GET /api/users/''
       = Inr [(''/api/users/'', [(''info_count'', 1)])]"
proof -
  let ?line = "''2024-03-28 10:15:32,789 INFO django.db.backends: GET /api/users/''"
  let ?data = "[(''message'', ''GET /api/users/''), (''component'', ''django.db.backends''),
                  (''level'', ''INFO''), (''timestamp'', ''2024-03-28 10:15:32,789'')]"
  have p: "parse_log_line ?line = Inr (Some ?data)" by code_simp
  have c: "group ?data ''component'' \<noteq> Some REQUEST" by (simp add: group_def REQUEST_def)
  from other_components_have_no_handler[OF p c, of "[(''/api/users/'', [(''info_count'', 1)])]" "[]" "[]"] p
  show ?thesis by blast
qed

text \<open>
  C9. Every handler key begins with the character \<^verbatim>\<open>/\<close> and contains no whitespace
  character: the handler that \<^verbatim>\<open>parse_log_line\<close> attaches to a record, hence every key
  of the result of \<^verbatim>\<open>_process_single_file\<close>, every row that \<^verbatim>\<open>_merge_results\<close> builds
  from partial results with such keys, and every row that \<^verbatim>\<open>process_files\<close> returns when
  it reads the sources itself.
\<close>

theorem handler_keys_start_with_slash:
  "(handler_key_ok h \<longleftrightarrow> h \<noteq> [] \<and> hd h = CHR ''/'' \<and> (\<forall>c \<in> set h. \<not> is_space c))
   \<and> (parse_log_line line = Inr (Some data) \<and> group data ''handler'' = Some h
        \<longrightarrow> handler_key_ok h)
   \<and> (process_single_file fs file_path = Inr result
        \<longrightarrow> (\<forall>k \<in> fst ` set result. handler_key_ok k))
   \<and> ((\<forall>p \<in> set ps. \<forall>k \<in> fst ` set p. handler_key_ok k)
        \<longrightarrow> (\<forall>r \<in> set (merge_results ps). handler_key_ok (handler_name r)))
   \<and> (process_files pool_map num_workers False fs file_paths = Inr rows
        \<longrightarrow> (\<forall>r \<in> set rows. handler_key_ok (handler_name r)))"
proof -
  have 1: "handler_key_ok h" if "parse_log_line line = Inr (Some data)" "group data ''handler'' = Some h"
  proof (cases line rule: parse_log_line_cases)
    case unmatched
    with that show ?thesis by simp
  next
    case (plain ts lv cp msg)
    with that show ?thesis by (auto simp add: group_def)
  next
    case (handler ts lv msg p)
    with that have "h = p" by (auto simp add: group_def)
    with handler show ?thesis by (simp add: path_text_ok)
  qed
  have 2: "\<forall>k \<in> fst ` set result. handler_key_ok k"
    if "process_single_file fs file_path = Inr result" for fs file_path result
  proof -
    from process_single_file_Inr[OF that] obtain ls where "result = fold count_line ls []" by blast
    then show ?thesis using handlers_result_ok[of _ ls] by (simp add: handlers_def)
  qed
  have 4: "\<forall>r \<in> set rows. handler_key_ok (handler_name r)"
    if "process_files pool_map num_workers False fs file_paths = Inr rows"
  proof -
    from process_files_sequential_Inr[OF that] obtain results
      where c: "collect (process_single_file fs) file_paths = Inr results"
        and rows: "rows = merge_results results" by blast
    have "\<forall>p \<in> set results. \<forall>k \<in> fst ` set p. handler_key_ok k"
      using collect_Inr[OF c] 2 by blast
    from merge_results_keys_ok[OF this] rows show ?thesis by simp
  qed
  from 1 2[of fs file_path result] merge_results_keys_ok[of ps] 4 handler_key_ok_iff[of h]
  show ?thesis by blast
qed

theorem handler_keys_start_with_slash_witness:
  "parse_log_line ''2024-03-28 10:15:31,456 ERROR django.request: Error: /api/users/''
     = Inr (Some [(''message'', ''Error: /api/users/''), (''component'', ''django.request''),
                  (''level'', ''ERROR''), (''timestamp'', ''2024-03-28 10:15:31,456''),
                  (''handler'', ''/api/users/'')])
   \<and> handler_key_ok ''/api/users/''
   \<and> hd ''/api/users/'' = CHR ''/'' \<and> list_all not_space ''/api/users/''
   \<and> process_files (\<lambda>n. collect) 1 False
         (\<lambda>path. Lines [''2024-03-28 10:15:31,456 ERROR django.request: Error: /api/users/''])
         [''app1.log'']
       = Inr [\<lparr>handler_name = ''/api/users/'', debug_count = 0, info_count = 0, warning_count = 0,
                error_count = 1, critical_count = 0\<rparr>]
   \<and> handler_key_ok (fst (hd [(''/api/users/'', [(''error_count'', 1::int)])]))"
proof -
  let ?line = "''2024-03-28 10:15:31,456 ERROR django.request: Error: /api/users/''"
  let ?data = "[(''message'', ''Error: /api/users/''), (''component'', ''django.request''),
                  (''level'', ''ERROR''), (''timestamp'', ''2024-03-28 10:15:31,456''),
                  (''handler'', ''/api/users/'')]"
  let ?fs = "\<lambda>path :: string. Lines [?line]"
  let ?rows = "[\<lparr>handler_name = ''/api/users/'', debug_count = 0, info_count = 0, warning_count = 0,
                error_count = 1, critical_count = 0\<rparr>]"
  have p: "parse_log_line ?line = Inr (Some ?data)" by code_simp
  have g: "group ?data ''handler'' = Some ''/api/users/''" by (simp add: group_def)
  have f: "process_single_file ?fs ''app1.log'' = Inr [(''/api/users/'', [(''error_count'', 1)])]"
    by code_simp
  have r: "process_files (\<lambda>n. collect) 1 False ?fs [''app1.log''] = Inr ?rows" by code_simp
  have k: "\<forall>p \<in> set [[(''/api/users/'', [(''error_count'', 1::int)])]]. \<forall>k \<in> fst ` set p. handler_key_ok k"
    by (simp add: handler_key_ok_def not_space_def is_space_def code_point_def)
  note t = handler_keys_start_with_slash[of "''/api/users/''" ?line ?data ?fs "''app1.log''"
      "[(''/api/users/'', [(''error_count'', 1)])]" "[[(''/api/users/'', [(''error_count'', 1)])]]"
      "\<lambda>n. collect" 1 "[''app1.log'']" ?rows]
  from t p g have ok: "handler_key_ok ''/api/users/''" by blast
  with t have "hd ''/api/users/'' = CHR ''/'' \<and> (\<forall>c \<in> set ''/api/users/''. \<not> is_space c)" by blast
  then have "hd ''/api/users/'' = CHR ''/'' \<and> list_all not_space ''/api/users/''"
    by (simp add: not_space_def list_all_iff)
  moreover from t f have "\<forall>k \<in> fst ` set [(''/api/users/'', [(''error_count'', 1::int)])]. handler_key_ok k"
    by blast
  then have "handler_key_ok (fst (hd [(''/api/users/'', [(''error_count'', 1::int)])]))" by simp
  ultimately show ?thesis using p ok r by blast
qed

section \<open>Splitting a source\<close>

text \<open>
  C3. For every sequence of lines and every split of it into a first and a second part,
  the per-line accumulation of \<^verbatim>\<open>_process_single_file\<close> returns a table for each part
  and for the whole, and merging the tables of the two parts with \<^verbatim>\<open>_merge_results\<close>
  gives what the table of the whole gives: the same rows, and before the rows are built
  the same handlers and the same count in every cell. Read from files, the two parts
  processed as two sources give the result of the whole processed as one source.
\<close>

theorem split_source_then_merge:
  "(\<exists>a b c. process_lines [] xs = Inr a \<and> process_lines [] ys = Inr b
        \<and> process_lines [] (xs @ ys) = Inr c
        \<and> merge_results [a, b] = merge_results [c]
        \<and> fst ` set (merged_data [a, b]) = fst ` set c
        \<and> (\<forall>h l. cell (merged_data [a, b]) h l = cell c h l))
   \<and> (fs first_half = Lines xs \<and> fs second_half = Lines ys \<and> fs whole = Lines (xs @ ys)
        \<longrightarrow> process_files pool_map num_workers False fs [first_half, second_half]
            = process_files pool_map num_workers False fs [whole])"
proof -
  let ?a = "fold count_line xs []" and ?b = "fold count_line ys []"
  let ?c = "fold count_line (xs @ ys) []"
  have m: "merge_results [?a, ?b] = merge_results [?c]" by (rule split_merge(1))
  have "process_lines [] xs = Inr ?a \<and> process_lines [] ys = Inr ?b
        \<and> process_lines [] (xs @ ys) = Inr ?c
        \<and> merge_results [?a, ?b] = merge_results [?c]
        \<and> fst ` set (merged_data [?a, ?b]) = fst ` set ?c
        \<and> (\<forall>h l. cell (merged_data [?a, ?b]) h l = cell ?c h l)"
    using split_merge[of xs ys] by (simp only: process_lines_fold handlers_def) blast
  then have 1: "\<exists>a b c. process_lines [] xs = Inr a \<and> process_lines [] ys = Inr b
        \<and> process_lines [] (xs @ ys) = Inr c
        \<and> merge_results [a, b] = merge_results [c]
        \<and> fst ` set (merged_data [a, b]) = fst ` set c
        \<and> (\<forall>h l. cell (merged_data [a, b]) h l = cell c h l)"
    by blast
  have 2: "process_files pool_map num_workers False fs [first_half, second_half]
            = process_files pool_map num_workers False fs [whole]"
    if "fs first_half = Lines xs" "fs second_half = Lines ys" "fs whole = Lines (xs @ ys)"
    using that m by (simp add: process_files_def process_single_file_Lines)
  from 1 2 show ?thesis by blast
qed

theorem split_source_then_merge_witness:
  "process_files (\<lambda>n. collect) 1 False
     (\<lambda>path. if path = ''first'' then
                 Lines [''2024-03-28 10:15:30,123 INFO django.request: GET /api/users/'']
              else if path = ''second'' then
                 Lines [''2024-03-28 10:15:31,456 ERROR django.request: Error: /api/users/'']
              else
                 Lines ([''2024-03-28 10:15:30,123 INFO django.request: GET /api/users/'']
                        @ [''2024-03-28 10:15:31,456 ERROR django.request: Error: /api/users/'']))
     [''first'', ''second'']
   = process_files (\<lambda>n. collect) 1 False
     (\<lambda>path. if path = ''first'' then
                 Lines [''2024-03-28 10:15:30,123 INFO django.request: GET /api/users/'']
              else if path = ''second'' then
                 Lines [''2024-03-28 10:15:31,456 ERROR django.request: Error: /api/users/'']
              else
                 Lines ([''2024-03-28 10:15:30,123 INFO django.request: GET /api/users/'']
                        @ [''2024-03-28 10:15:31,456 ERROR django.request: Error: /api/users/'']))
     [''whole'']
   \<and> process_files (\<lambda>n. collect) 1 False
     (\<lambda>path. if path = ''first'' then
                 Lines [''2024-03-28 10:15:30,123 INFO django.request: GET /api/users/'']
              else if path = ''second'' then
                 Lines [''2024-03-28 10:15:31,456 ERROR django.request: Error: /api/users/'']
              else
                 Lines ([''2024-03-28 10:15:30,123 INFO django.request: GET /api/users/'']
                        @ [''2024-03-28 10:15:31,456 ERROR django.request: Error: /api/users/'']))
     [''first'', ''second'']
   = Inr [\<lparr>handler_name = ''/api/users/'', debug_count = 0, info_count = 1, warning_count = 0,
            error_count = 1, critical_count = 0\<rparr>]"
proof -
  let ?xs = "[''2024-03-28 10:15:30,123 INFO django.request: GET /api/users/'']"
  let ?ys = "[''2024-03-28 10:15:31,456 ERROR django.request: Error: /api/users/'']"
  let ?fs = "\<lambda>path. if path = ''first'' then Lines ?xs
              else if path = ''second'' then Lines ?ys else Lines (?xs @ ?ys)"
  have h: "?fs ''first'' = Lines ?xs \<and> ?fs ''second'' = Lines ?ys \<and> ?fs ''whole'' = Lines (?xs @ ?ys)"
    by simp
  from split_source_then_merge[of ?xs ?ys ?fs "''first''" "''second''" "''whole''" "\<lambda>n. collect" 1] h
  have 1: "process_files (\<lambda>n. collect) 1 False ?fs [''first'', ''second'']
      = process_files (\<lambda>n. collect) 1 False ?fs [''whole'']"
    by blast
  have 2: "process_files (\<lambda>n. collect) 1 False ?fs [''first'', ''second'']
      = Inr [\<lparr>handler_name = ''/api/users/'', debug_count = 0, info_count = 1, warning_count = 0,
            error_count = 1, critical_count = 0\<rparr>]"
    by code_simp
  from 1 2 show ?thesis by (rule conjI)
qed

section \<open>Failing sources\<close>




end
